theory Spec2Isabelle
  imports Complex_Main
begin

section \<open>Decoded JSON values and Python dictionaries\<close>

text \<open>
  The program works on the value that \<^verbatim>\<open>json.loads\<close> returns: a tree of Python
  objects. A JSON integer literal becomes a Python \<^verbatim>\<open>int\<close>, a literal with a
  fraction or an exponent becomes a \<^verbatim>\<open>float\<close>. The type of floats is a parameter
  \<open>'f\<close>: the arithmetic of floats belongs to the Python runtime, not to the program.

  A dictionary is an association list in insertion order; a lookup reads the first
  binding of a key, as a Python \<^verbatim>\<open>dict\<close> with distinct keys does. The decoded value
  is a tree: no two places of it share an object.
\<close>

datatype 'f json =
    JNull
  | JBool bool
  | JInt int
  | JFloat 'f
  | JStr string
  | JArr "'f json list"
  | JObj "(string \<times> 'f json) list"

type_synonym 'f dict = "(string \<times> 'f json) list"

datatype py_error = KeyError | TypeError | AttributeError | JSONDecodeError

text \<open>\<^verbatim>\<open>d.get(key, default)\<close>\<close>

definition dict_get :: "'f dict \<Rightarrow> string \<Rightarrow> 'f json \<Rightarrow> 'f json" where
  "dict_get d key dflt = (case map_of d key of None \<Rightarrow> dflt | Some v \<Rightarrow> v)"

text \<open>
  \<^verbatim>\<open>d[key] = v\<close>: an existing key keeps its position, a new key goes to the end.
\<close>

primrec dict_set :: "string \<Rightarrow> 'f json \<Rightarrow> 'f dict \<Rightarrow> 'f dict" where
  "dict_set key v [] = [(key, v)]"
| "dict_set key v (p # ps) = (if fst p = key then (key, v) # ps else p # dict_set key v ps)"

section \<open>The Python runtime\<close>

text \<open>
  The built-ins that \<^verbatim>\<open>calculate_summary\<close> calls on floats and strings are
  parameters of the model:
  \<^item> \<open>repr_of\<close>: \<^verbatim>\<open>str(v)\<close> for a decoded value that is not a string (for these
    types \<^verbatim>\<open>str\<close> is \<^verbatim>\<open>repr\<close>);
  \<^item> \<open>float_of\<close>: \<^verbatim>\<open>float(s)\<close> on a string, \<open>None\<close> when it raises ValueError;
  \<^item> \<open>round2\<close>: \<^verbatim>\<open>round(x, 2)\<close>;
  \<^item> \<open>fadd\<close>: \<^verbatim>\<open>x + y\<close> on floats;
  \<^item> \<open>fzero\<close>: the literal \<^verbatim>\<open>0.0\<close>.
\<close>

record 'f runtime =
  repr_of :: "'f json \<Rightarrow> string"
  float_of :: "string \<Rightarrow> 'f option"
  round2 :: "'f \<Rightarrow> 'f"
  fadd :: "'f \<Rightarrow> 'f \<Rightarrow> 'f"
  fzero :: "'f"

text \<open>\<^verbatim>\<open>str(v)\<close>: a string is returned as it is.\<close>

definition py_str :: "'f runtime \<Rightarrow> 'f json \<Rightarrow> string" where
  "py_str R v = (case v of JStr s \<Rightarrow> s | _ \<Rightarrow> repr_of R v)"

text \<open>\<^verbatim>\<open>s.replace(",", "")\<close>\<close>

definition strip_commas :: "string \<Rightarrow> string" where
  "strip_commas s = filter (\<lambda>c. c \<noteq> CHR '','') s"

section \<open>calculate_summary\<close>

text \<open>
  \<^verbatim>\<open>float(str(inv.get(key, "0")).replace(",", ""))\<close>: the expression of both
  \<^verbatim>\<open>try\<close> blocks; \<open>None\<close> is the ValueError that the \<^verbatim>\<open>except\<close> clause catches.
\<close>

definition parse_amount :: "'f runtime \<Rightarrow> 'f dict \<Rightarrow> string \<Rightarrow> 'f option" where
  "parse_amount R invoice key =
     float_of R (strip_commas (py_str R (dict_get invoice key (JStr ''0''))))"

text \<open>
  One \<^verbatim>\<open>try\<close>/\<^verbatim>\<open>except\<close> block: the rounded value is written into the field and the
  value before rounding is added to the running total; on ValueError the field
  becomes \<^verbatim>\<open>0.0\<close> and the total is left as it is.
\<close>

definition normalize_field :: "'f runtime \<Rightarrow> string \<Rightarrow> 'f dict \<Rightarrow> 'f \<Rightarrow> 'f dict \<times> 'f" where
  "normalize_field R key invoice running =
     (case parse_amount R invoice key of
        Some x \<Rightarrow> (dict_set key (JFloat (round2 R x)) invoice, fadd R running x)
      | None \<Rightarrow> (dict_set key (JFloat (fzero R)) invoice, running))"

text \<open>
  The body of the \<^verbatim>\<open>for\<close> loop on one element. \<^verbatim>\<open>inv.get\<close> exists on a
  dictionary only: any other element raises AttributeError.
\<close>

definition normalize_invoice ::
  "'f runtime \<Rightarrow> 'f json \<Rightarrow> 'f \<Rightarrow> 'f \<Rightarrow> py_error + ('f json \<times> 'f \<times> 'f)" where
  "normalize_invoice R invoice total_pre_vat total_wht =
     (case invoice of
        JObj d \<Rightarrow>
          (let (d1, tp) = normalize_field R ''Pre_VAT_Amount'' d total_pre_vat;
               (d2, tw) = normalize_field R ''WHT'' d1 total_wht
           in Inr (JObj d2, tp, tw))
      | _ \<Rightarrow> Inl AttributeError)"

text \<open>The \<^verbatim>\<open>for\<close> loop: the elements in order, the two running totals threaded through.\<close>

fun invoice_loop ::
  "'f runtime \<Rightarrow> 'f json list \<Rightarrow> 'f \<Rightarrow> 'f \<Rightarrow> py_error + ('f json list \<times> 'f \<times> 'f)" where
  "invoice_loop R [] tp tw = Inr ([], tp, tw)"
| "invoice_loop R (invoice # rest) tp tw =
     (case normalize_invoice R invoice tp tw of
        Inl e \<Rightarrow> Inl e
      | Inr (invoice', tp', tw') \<Rightarrow>
          (case invoice_loop R rest tp' tw' of
             Inl e \<Rightarrow> Inl e
           | Inr (rest', tp'', tw'') \<Rightarrow> Inr (invoice' # rest', tp'', tw'')))"

text \<open>
  The two assignments after the loop. \<^verbatim>\<open>data["Summary"]\<close> raises KeyError when the
  key is missing; item assignment with a string key raises TypeError on anything
  that is not a dictionary.
\<close>

definition write_summary :: "'f runtime \<Rightarrow> 'f dict \<Rightarrow> 'f \<Rightarrow> 'f \<Rightarrow> py_error + 'f json" where
  "write_summary R data total_pre_vat total_wht =
     (case map_of data ''Summary'' of
        None \<Rightarrow> Inl KeyError
      | Some (JObj s) \<Rightarrow>
          Inr (JObj (dict_set ''Summary''
                 (JObj (dict_set ''Total_WHT'' (JFloat (round2 R total_wht))
                         (dict_set ''Total_Pre_VAT_Amount'' (JFloat (round2 R total_pre_vat)) s)))
                 data))
      | Some _ \<Rightarrow> Inl TypeError)"

text \<open>
  \<^verbatim>\<open>calculate_summary(data)\<close>. The loop runs over \<^verbatim>\<open>data.get("Invoices", [])\<close>:
  a list gives its elements; a dictionary gives its keys and a string its characters,
  which are strings, so the first of them raises AttributeError at \<^verbatim>\<open>inv.get\<close>;
  a number, a boolean or \<^verbatim>\<open>None\<close> is not iterable. The invoices are changed in place,
  so the changed list is what \<^verbatim>\<open>data["Invoices"]\<close> holds afterwards. An exception
  leaves the function without a value.
\<close>

definition calculate_summary :: "'f runtime \<Rightarrow> 'f json \<Rightarrow> py_error + 'f json" where
  "calculate_summary R data =
     (case data of
        JObj d \<Rightarrow>
          (case map_of d ''Invoices'' of
             None \<Rightarrow> write_summary R d (fzero R) (fzero R)
           | Some (JArr invs) \<Rightarrow>
               (case invoice_loop R invs (fzero R) (fzero R) of
                  Inl e \<Rightarrow> Inl e
                | Inr (invs', tp, tw) \<Rightarrow> write_summary R (dict_set ''Invoices'' (JArr invs') d) tp tw)
           | Some (JObj kvs) \<Rightarrow>
               (if kvs = [] then write_summary R d (fzero R) (fzero R) else Inl AttributeError)
           | Some (JStr s) \<Rightarrow>
               (if s = [] then write_summary R d (fzero R) (fzero R) else Inl AttributeError)
           | Some _ \<Rightarrow> Inl TypeError)
      | _ \<Rightarrow> Inl AttributeError)"

section \<open>Processing the companies\<close>

text \<open>
  The two collaborators of \<^verbatim>\<open>process_one_company\<close> are parameters:
  \<^item> \<open>chat_reply\<close>: the text of the first choice of the chat completion that is
    requested for the files of one company (\<^verbatim>\<open>response.choices[0].message.content\<close>);
  \<^item> \<open>json_loads\<close>: \<^verbatim>\<open>json.loads\<close>, \<open>None\<close> when it raises JSONDecodeError.
  What the functions write to the page (\<^verbatim>\<open>st.write\<close>, \<^verbatim>\<open>st.error\<close>, \<^verbatim>\<open>st.text\<close>,
  \<^verbatim>\<open>print\<close>) has no influence on what they return and is left out.
\<close>

record ('file, 'f) services =
  chat_reply :: "'file list \<Rightarrow> string"
  json_loads :: "string \<Rightarrow> 'f json option"

text \<open>
  \<^verbatim>\<open>process_one_company(uploaded_files)\<close>: the \<^verbatim>\<open>except\<close> clause reports the reply
  and raises the JSONDecodeError again.
\<close>

definition process_one_company ::
  "'f runtime \<Rightarrow> ('file, 'f) services \<Rightarrow> 'file list \<Rightarrow> py_error + 'f json" where
  "process_one_company R S uploaded_files =
     (let raw_output = chat_reply S uploaded_files
      in case json_loads S raw_output of
           None \<Rightarrow> Inl JSONDecodeError
         | Some data \<Rightarrow> calculate_summary R data)"

text \<open>
  The loop of \<^verbatim>\<open>process_multiple_companies\<close>, with the list \<^verbatim>\<open>companies\<close> built
  so far. An exception of \<^verbatim>\<open>process_one_company\<close> is not caught. The counter
  \<^verbatim>\<open>idx\<close> of \<^verbatim>\<open>enumerate\<close> is used in the message on the page only.
\<close>

fun companies_loop ::
  "'f runtime \<Rightarrow> ('file, 'f) services \<Rightarrow> 'file list list \<Rightarrow> 'f json list
     \<Rightarrow> py_error + 'f json list" where
  "companies_loop R S [] companies = Inr companies"
| "companies_loop R S (files # rest) companies =
     (case process_one_company R S files of
        Inl e \<Rightarrow> Inl e
      | Inr company_data \<Rightarrow> companies_loop R S rest (companies @ [company_data]))"

definition process_multiple_companies ::
  "'f runtime \<Rightarrow> ('file, 'f) services \<Rightarrow> 'file list list \<Rightarrow> py_error + 'f json" where
  "process_multiple_companies R S invoice_sets =
     (case companies_loop R S invoice_sets [] of
        Inl e \<Rightarrow> Inl e
      | Inr companies \<Rightarrow> Inr (JObj [(''companies'', JArr companies)]))"

section \<open>A runtime with exact decimal floats\<close>

text \<open>
  The theorems below hold for every runtime. To run the program on concrete inputs,
  \<open>decimal_rt\<close> is one instance: a finite float is an exact rational number, sums
  are exact, \<^verbatim>\<open>round(x, 2)\<close> rounds the exact value half to even, \<^verbatim>\<open>float(s)\<close>
  reads the ASCII syntax that CPython accepts and \<^verbatim>\<open>repr\<close> writes a finite float in
  positional notation. CPython's binary64 floats give the same results wherever no
  binary rounding error, overflow, exponent notation or non-ASCII digit or space is
  involved.
\<close>

datatype dfloat = Finite rat | PosInf | NegInf | NaN

definition round_half_even :: "rat \<Rightarrow> int" where
  "round_half_even q =
     (let f = \<lfloor>q\<rfloor>; r = q - of_int f
      in if r < 1/2 then f else if 1/2 < r then f + 1 else if even f then f else f + 1)"

fun dec_round2 :: "dfloat \<Rightarrow> dfloat" where
  "dec_round2 (Finite q) = Finite (of_int (round_half_even (q * 100)) / 100)"
| "dec_round2 x = x"

fun dec_add :: "dfloat \<Rightarrow> dfloat \<Rightarrow> dfloat" where
  "dec_add (Finite a) (Finite b) = Finite (a + b)"
| "dec_add NaN y = NaN"
| "dec_add x NaN = NaN"
| "dec_add PosInf NegInf = NaN"
| "dec_add NegInf PosInf = NaN"
| "dec_add PosInf y = PosInf"
| "dec_add NegInf y = NegInf"
| "dec_add (Finite a) y = y"

subsection \<open>Reading a float\<close>

definition is_digit :: "char \<Rightarrow> bool" where
  "is_digit c = (c \<in> set ''0123456789'')"

text \<open>The value of a digit; applied to digits only.\<close>

definition digit_val :: "char \<Rightarrow> int" where
  "digit_val c = of_char c - 48"

definition int_of_digits :: "string \<Rightarrow> int" where
  "int_of_digits ds = foldl (\<lambda>n c. 10 * n + digit_val c) 0 ds"

definition is_space :: "char \<Rightarrow> bool" where
  "is_space c = (c \<in> set [CHR '' '', CHR 0x09, CHR 0x0A, CHR 0x0B, CHR 0x0C, CHR 0x0D,
                            CHR 0x1C, CHR 0x1D, CHR 0x1E, CHR 0x1F])"

definition strip_ws :: "string \<Rightarrow> string" where
  "strip_ws s = rev (dropWhile is_space (rev (dropWhile is_space s)))"

text \<open>
  An underscore is accepted between two digits only; \<open>prev\<close> is the character before
  the rest of the string.
\<close>

fun underscores_ok :: "char \<Rightarrow> string \<Rightarrow> bool" where
  "underscores_ok prev [] = (prev \<noteq> CHR ''_'')"
| "underscores_ok prev (c # cs) =
     ((if c = CHR ''_'' then is_digit prev else if prev = CHR ''_'' then is_digit c else True)
      \<and> underscores_ok c cs)"

definition split_sign :: "string \<Rightarrow> bool \<times> string" where
  "split_sign s =
     (case s of
        [] \<Rightarrow> (False, [])
      | c # r \<Rightarrow> if c = CHR ''-'' then (True, r) else if c = CHR ''+'' then (False, r) else (False, s))"

definition lower :: "char \<Rightarrow> char" where
  "lower c =
     (case map_of (zip ''ABCDEFGHIJKLMNOPQRSTUVWXYZ'' ''abcdefghijklmnopqrstuvwxyz'') c of
        None \<Rightarrow> c
      | Some l \<Rightarrow> l)"

definition scale10 :: "rat \<Rightarrow> int \<Rightarrow> rat" where
  "scale10 q k = (if 0 \<le> k then q * 10 ^ nat k else q / 10 ^ nat (- k))"

text \<open>The exponent part: empty, or \<^verbatim>\<open>e\<close>, an optional sign and at least one digit.\<close>

definition parse_exponent :: "string \<Rightarrow> int option" where
  "parse_exponent r =
     (case r of
        [] \<Rightarrow> Some 0
      | c # t \<Rightarrow>
          if c = CHR ''e'' \<or> c = CHR ''E'' then
            (let (neg, ds) = split_sign t
             in if ds \<noteq> [] \<and> list_all is_digit ds
                then Some (if neg then - int_of_digits ds else int_of_digits ds)
                else None)
          else None)"

text \<open>
  Digits, an optional point with digits, an optional exponent; at least one digit
  before or after the point.
\<close>

definition parse_decimal :: "string \<Rightarrow> rat option" where
  "parse_decimal s =
     (let ip = takeWhile is_digit s;
          r1 = dropWhile is_digit s;
          (fp, r2) = (case r1 of
                        [] \<Rightarrow> ([], [])
                      | c # t \<Rightarrow> if c = CHR ''.'' then (takeWhile is_digit t, dropWhile is_digit t)
                                 else ([], r1))
      in if ip = [] \<and> fp = [] then None
         else (case parse_exponent r2 of
                 None \<Rightarrow> None
               | Some e \<Rightarrow> Some (scale10 (of_int (int_of_digits (ip @ fp))) (e - int (length fp)))))"

text \<open>
  \<^verbatim>\<open>float(s)\<close>: spaces around the number are dropped, underscores are checked and
  removed, then a sign and either \<^verbatim>\<open>inf\<close>, \<^verbatim>\<open>infinity\<close>, \<^verbatim>\<open>nan\<close> in any case or a
  decimal number must fill the whole string.
\<close>

definition float_parse :: "string \<Rightarrow> dfloat option" where
  "float_parse s0 =
     (let s = strip_ws s0
      in if \<not> underscores_ok (CHR 0x00) s then None
         else (let (neg, u) = split_sign (filter (\<lambda>c. c \<noteq> CHR ''_'') s);
                   l = map lower u
               in if l = ''inf'' \<or> l = ''infinity'' then Some (if neg then NegInf else PosInf)
                  else if l = ''nan'' then Some NaN
                  else map_option (\<lambda>q. Finite (if neg then - q else q)) (parse_decimal u)))"

subsection \<open>Writing a value\<close>

definition digit_char :: "int \<Rightarrow> char" where
  "digit_char d = char_of (48 + d)"

text \<open>The decimal digits of a number that is not negative.\<close>

function show_digits :: "int \<Rightarrow> string" where
  "show_digits n =
     (if n < 10 then [digit_char n] else show_digits (n div 10) @ [digit_char (n mod 10)])"
  by pat_completeness auto
termination
  by (relation "measure nat") auto

definition show_int :: "int \<Rightarrow> string" where
  "show_int n = (if n < 0 then CHR ''-'' # show_digits (- n) else show_digits n)"

text \<open>
  The digits after the point of \<open>r\<close>, \<open>0 \<le> r < 1\<close>: at least one, then as many as
  the value needs, at most \<open>n\<close>.
\<close>

fun frac_digits :: "nat \<Rightarrow> rat \<Rightarrow> string" where
  "frac_digits 0 r = []"
| "frac_digits (Suc n) r =
     (let t = r * 10; d = \<lfloor>t\<rfloor>
      in digit_char d # (if t = of_int d then [] else frac_digits n (t - of_int d)))"

definition float_repr :: "dfloat \<Rightarrow> string" where
  "float_repr x =
     (case x of
        Finite q \<Rightarrow>
          (if q < 0 then ''-'' else []) @ show_digits \<lfloor>\<bar>q\<bar>\<rfloor> @ ''.'' @
          frac_digits 17 (\<bar>q\<bar> - of_int \<lfloor>\<bar>q\<bar>\<rfloor>)
      | PosInf \<Rightarrow> ''inf''
      | NegInf \<Rightarrow> ''-inf''
      | NaN \<Rightarrow> ''nan'')"

definition hex_digit :: "int \<Rightarrow> char" where
  "hex_digit d = ''0123456789abcdef'' ! nat d"

text \<open>
  \<^verbatim>\<open>repr\<close> of a string: in single quotes, unless it holds a single quote and no
  double quote; backslash, the quote and control characters are escaped.
\<close>

definition escape_char :: "char \<Rightarrow> char \<Rightarrow> string" where
  "escape_char quote c =
     (if c = CHR 0x5C then [CHR 0x5C, CHR 0x5C]
      else if c = quote then [CHR 0x5C, quote]
      else if c = CHR 0x09 then [CHR 0x5C, CHR ''t'']
      else if c = CHR 0x0A then [CHR 0x5C, CHR ''n'']
      else if c = CHR 0x0D then [CHR 0x5C, CHR ''r'']
      else if of_char c < (32::int) \<or> c = CHR 0x7F
        then [CHR 0x5C, CHR ''x'', hex_digit (of_char c div 16), hex_digit (of_char c mod 16)]
      else [c])"

definition str_repr :: "string \<Rightarrow> string" where
  "str_repr s =
     (let quote = (if CHR 0x27 \<in> set s \<and> CHR 0x22 \<notin> set s then CHR 0x22 else CHR 0x27)
      in quote # concat (map (escape_char quote) s) @ [quote])"

fun join :: "string \<Rightarrow> string list \<Rightarrow> string" where
  "join sep [] = []"
| "join sep [x] = x"
| "join sep (x # y # ys) = x @ sep @ join sep (y # ys)"

primrec dec_repr :: "dfloat json \<Rightarrow> string" where
  "dec_repr JNull = ''None''"
| "dec_repr (JBool b) = (if b then ''True'' else ''False'')"
| "dec_repr (JInt n) = show_int n"
| "dec_repr (JFloat x) = float_repr x"
| "dec_repr (JStr s) = str_repr s"
| "dec_repr (JArr xs) = ''['' @ join '', '' (map dec_repr xs) @ '']''"
| "dec_repr (JObj kvs) =
     ''{'' @ join '', '' (map (\<lambda>(k, r). str_repr k @ '': '' @ r) (map (map_prod id dec_repr) kvs))
       @ ''}''"

definition decimal_rt :: "dfloat runtime" where
  "decimal_rt = \<lparr>repr_of = dec_repr, float_of = float_parse, round2 = dec_round2,
                  fadd = dec_add, fzero = Finite 0\<rparr>"

section \<open>What the claims speak about\<close>

text \<open>The contract on the input: \<^verbatim>\<open>"Invoices"\<close> is absent or a list of dictionaries.\<close>

definition is_dict :: "'f json \<Rightarrow> bool" where
  "is_dict v = (case v of JObj d \<Rightarrow> True | _ \<Rightarrow> False)"

definition invoices_ok :: "'f dict \<Rightarrow> bool" where
  "invoices_ok d =
     (case map_of d ''Invoices'' of
        None \<Rightarrow> True
      | Some (JArr invs) \<Rightarrow> list_all is_dict invs
      | Some _ \<Rightarrow> False)"

text \<open>\<^verbatim>\<open>"Summary"\<close> is a dictionary.\<close>

definition summary_ok :: "'f dict \<Rightarrow> bool" where
  "summary_ok d = (case map_of d ''Summary'' of Some (JObj s) \<Rightarrow> True | _ \<Rightarrow> False)"

definition contract :: "'f dict \<Rightarrow> bool" where
  "contract d = (invoices_ok d \<and> summary_ok d)"

text \<open>The value of a key of a dictionary value, the invoice list, a slot of the summary.\<close>

definition field_of :: "'f json \<Rightarrow> string \<Rightarrow> 'f json option" where
  "field_of v key = (case v of JObj d \<Rightarrow> map_of d key | _ \<Rightarrow> None)"

definition invoices_of :: "'f json \<Rightarrow> 'f json list" where
  "invoices_of data = (case field_of data ''Invoices'' of Some (JArr invs) \<Rightarrow> invs | _ \<Rightarrow> [])"

definition summary_slot :: "'f json \<Rightarrow> string \<Rightarrow> 'f json option" where
  "summary_slot data key =
     (case field_of data ''Summary'' of Some s \<Rightarrow> field_of s key | None \<Rightarrow> None)"

text \<open>
  The float that a \<^verbatim>\<open>try\<close> block leaves in the field \<open>key\<close> of an invoice, and
  the invoice after both blocks.
\<close>

definition field_result :: "'f runtime \<Rightarrow> 'f dict \<Rightarrow> string \<Rightarrow> 'f" where
  "field_result R invoice key =
     (case parse_amount R invoice key of Some x \<Rightarrow> round2 R x | None \<Rightarrow> fzero R)"

definition normalized_invoice :: "'f runtime \<Rightarrow> 'f json \<Rightarrow> 'f json" where
  "normalized_invoice R v =
     (case v of
        JObj d \<Rightarrow>
          JObj (dict_set ''WHT'' (JFloat (field_result R d ''WHT''))
                 (dict_set ''Pre_VAT_Amount'' (JFloat (field_result R d ''Pre_VAT_Amount'')) d))
      | _ \<Rightarrow> v)"

text \<open>
  The values that parse in the field \<open>key\<close> of the invoices, in order, before they are
  rounded, and the sum that the loop builds from a list of floats.
\<close>

definition parsed_values :: "'f runtime \<Rightarrow> string \<Rightarrow> 'f json list \<Rightarrow> 'f list" where
  "parsed_values R key invs =
     List.map_filter (\<lambda>v. case v of JObj d \<Rightarrow> parse_amount R d key | _ \<Rightarrow> None) invs"

definition running_sum :: "'f runtime \<Rightarrow> 'f list \<Rightarrow> 'f" where
  "running_sum R xs = foldl (fadd R) (fzero R) xs"

text \<open>The floats that the invoices hold in the field \<open>key\<close>.\<close>

definition held_values :: "string \<Rightarrow> 'f json list \<Rightarrow> 'f list" where
  "held_values key invs =
     List.map_filter (\<lambda>v. case field_of v key of Some (JFloat x) \<Rightarrow> Some x | _ \<Rightarrow> None) invs"

text \<open>
  The dictionary \<^verbatim>\<open>data\<close> when the loop has run over a list of invoices: the list
  holds the invoices as the loop leaves them.
\<close>

definition after_loop :: "'f runtime \<Rightarrow> 'f dict \<Rightarrow> 'f dict" where
  "after_loop R d =
     (case map_of d ''Invoices'' of
        Some (JArr invs) \<Rightarrow> dict_set ''Invoices'' (JArr (map (normalized_invoice R) invs)) d
      | _ \<Rightarrow> d)"

section \<open>Example inputs\<close>

text \<open>
  A reply with a monetary value of every kind: a string with a thousands separator,
  strings that are not numbers, a list, \<^verbatim>\<open>None\<close>, a missing key, an integer and a
  float.
\<close>

definition mixed_company :: "dfloat dict" where
  "mixed_company =
     [(''Receiver'', JStr ''ABC Company''),
      (''Invoices'', JArr
         [JObj [(''Invoice_No'', JStr ''INV-Temp''), (''Pre_VAT_Amount'', JStr ''50,000''),
                (''WHT'', JStr ''N/A'')],
          JObj [(''Pre_VAT_Amount'', JArr [JInt 1, JInt 2]), (''WHT'', JNull)],
          JObj [(''Date'', JStr ''01/07/2025''), (''WHT'', JStr [])],
          JObj [(''Pre_VAT_Amount'', JInt 60000), (''WHT'', JFloat (Finite (1234567 / 1000)))]]),
      (''Summary'', JObj [(''Total_Pre_VAT_Amount'', JFloat (Finite 0)),
                         (''Total_WHT'', JFloat (Finite 0))])]"

definition no_invoices :: "dfloat dict" where
  "no_invoices =
     [(''Receiver'', JStr ''ABC Company''),
      (''Summary'', JObj [(''Total_Pre_VAT_Amount'', JInt 7), (''Total_WHT'', JStr ''x'')])]"




text \<open>The example of the expected output in the prompt, with its three invoices.\<close>

definition prompt_example :: "dfloat dict" where
  "prompt_example =
     [(''Receiver'', JStr ''ABC Company (Sender Company)''),
      (''Tax_ID'', JStr ''0123456789xxx''),
      (''Branch_No'', JStr ''00000''),
      (''Tax_Condition'', JStr ''Withheld at source''),
      (''Invoices'', JArr
         [JObj [(''Invoice_No'', JStr ''INV-Temp''), (''Date'', JStr ''01/07/2025''),
                (''Description'', JStr ''Service ABC''), (''Withholding_Tax_Rate'', JStr ''3%''),
                (''Pre_VAT_Amount'', JInt 50000), (''WHT'', JInt 1500)],
          JObj [(''Invoice_No'', JStr ''INV-Temp''), (''Date'', JStr ''10/07/2025''),
                (''Description'', JStr ''Home charger installation for GAC - 06/2025''),
                (''Withholding_Tax_Rate'', JStr ''3%''),
                (''Pre_VAT_Amount'', JInt 60000), (''WHT'', JInt 1800)],
          JObj [(''Invoice_No'', JStr ''INV-Temp''), (''Date'', JStr ''10/07/2025''),
                (''Description'', JStr ''Home charger installation for GAC - 05/2025''),
                (''Withholding_Tax_Rate'', JStr ''3%''),
                (''Pre_VAT_Amount'', JInt 80000), (''WHT'', JInt 2400)]]),
      (''Summary'', JObj [(''Total_Pre_VAT_Amount'', JFloat (Finite 0)),
                         (''Total_WHT'', JFloat (Finite 0))])]"

text \<open>What \<^verbatim>\<open>calculate_summary\<close> makes of it.\<close>

definition prompt_example_once :: "dfloat json" where
  "prompt_example_once =
     JObj [(''Receiver'', JStr ''ABC Company (Sender Company)''),
      (''Tax_ID'', JStr ''0123456789xxx''),
      (''Branch_No'', JStr ''00000''),
      (''Tax_Condition'', JStr ''Withheld at source''),
      (''Invoices'', JArr
         [JObj [(''Invoice_No'', JStr ''INV-Temp''), (''Date'', JStr ''01/07/2025''),
                (''Description'', JStr ''Service ABC''), (''Withholding_Tax_Rate'', JStr ''3%''),
                (''Pre_VAT_Amount'', JFloat (Finite 50000)), (''WHT'', JFloat (Finite 1500))],
          JObj [(''Invoice_No'', JStr ''INV-Temp''), (''Date'', JStr ''10/07/2025''),
                (''Description'', JStr ''Home charger installation for GAC - 06/2025''),
                (''Withholding_Tax_Rate'', JStr ''3%''),
                (''Pre_VAT_Amount'', JFloat (Finite 60000)), (''WHT'', JFloat (Finite 1800))],
          JObj [(''Invoice_No'', JStr ''INV-Temp''), (''Date'', JStr ''10/07/2025''),
                (''Description'', JStr ''Home charger installation for GAC - 05/2025''),
                (''Withholding_Tax_Rate'', JStr ''3%''),
                (''Pre_VAT_Amount'', JFloat (Finite 80000)), (''WHT'', JFloat (Finite 2400))]]),
      (''Summary'', JObj [(''Total_Pre_VAT_Amount'', JFloat (Finite 190000)),
                         (''Total_WHT'', JFloat (Finite 5700))])]"

text \<open>
  Two invoices of 0.004 each, and what \<^verbatim>\<open>calculate_summary\<close> makes of them: each
  amount rounds to 0.0, their sum 0.008 rounds to 0.01.
\<close>

definition small_amounts :: "dfloat dict" where
  "small_amounts =
     [(''Invoices'', JArr
         [JObj [(''Pre_VAT_Amount'', JStr ''0.004''), (''WHT'', JInt 0)],
          JObj [(''Pre_VAT_Amount'', JStr ''0.004''), (''WHT'', JInt 0)]]),
      (''Summary'', JObj [(''Total_Pre_VAT_Amount'', JFloat (Finite 0)),
                         (''Total_WHT'', JFloat (Finite 0))])]"

definition small_amounts_once :: "dfloat json" where
  "small_amounts_once =
     JObj [(''Invoices'', JArr
              [JObj [(''Pre_VAT_Amount'', JFloat (Finite 0)), (''WHT'', JFloat (Finite 0))],
               JObj [(''Pre_VAT_Amount'', JFloat (Finite 0)), (''WHT'', JFloat (Finite 0))]]),
           (''Summary'', JObj [(''Total_Pre_VAT_Amount'', JFloat (Finite (1 / 100))),
                              (''Total_WHT'', JFloat (Finite 0))])]"

text \<open>What a second call makes of the result: the total is 0.0.\<close>

definition small_amounts_twice :: "dfloat json" where
  "small_amounts_twice =
     JObj [(''Invoices'', JArr
              [JObj [(''Pre_VAT_Amount'', JFloat (Finite 0)), (''WHT'', JFloat (Finite 0))],
               JObj [(''Pre_VAT_Amount'', JFloat (Finite 0)), (''WHT'', JFloat (Finite 0))]]),
           (''Summary'', JObj [(''Total_Pre_VAT_Amount'', JFloat (Finite 0)),
                              (''Total_WHT'', JFloat (Finite 0))])]"

text \<open>A negative amount and an infinite one, and what \<^verbatim>\<open>calculate_summary\<close> makes of them.\<close>

definition signed_company :: "dfloat dict" where
  "signed_company =
     [(''Invoices'', JArr [JObj [(''Pre_VAT_Amount'', JStr ''-5''), (''WHT'', JStr ''inf'')]]),
      (''Summary'', JObj [(''Total_Pre_VAT_Amount'', JFloat (Finite 0)),
                         (''Total_WHT'', JFloat (Finite 0))])]"

definition signed_company_once :: "dfloat json" where
  "signed_company_once =
     JObj [(''Invoices'', JArr [JObj [(''Pre_VAT_Amount'', JFloat (Finite (- 5))),
                                     (''WHT'', JFloat PosInf)]]),
           (''Summary'', JObj [(''Total_Pre_VAT_Amount'', JFloat (Finite (- 5))),
                              (''Total_WHT'', JFloat PosInf)])]"

text \<open>
  Stand-ins for the two collaborators, to run a batch: a file holds a piece of the
  text that the model replies to it, and the decoder knows one JSON text.
\<close>

definition canned_services :: "(string, dfloat) services" where
  \<open>canned_services =
     \<lparr>chat_reply = concat,
      json_loads = (\<lambda>s. if s = ''{"Summary": {}}'' then Some (JObj [(''Summary'', JObj [])])
                         else None)\<rparr>\<close>

section \<open>Laws of a runtime\<close>

text \<open>
  Three facts about floats that CPython has and that a second call of
  \<^verbatim>\<open>calculate_summary\<close> rests on: \<^verbatim>\<open>float(repr(y))\<close> is \<open>y\<close> for a rounded float
  \<open>y\<close>, rounding a rounded float changes nothing, and \<^verbatim>\<open>round(0.0, 2)\<close> is
  \<^verbatim>\<open>0.0\<close>.
\<close>

definition runtime_laws :: "'f runtime \<Rightarrow> bool" where
  "runtime_laws R =
     ((\<forall>x. float_of R (strip_commas (repr_of R (JFloat (round2 R x)))) = Some (round2 R x)) \<and>
      (\<forall>x. round2 R (round2 R x) = round2 R x) \<and>
      round2 R (fzero R) = fzero R)"

section \<open>The claims as the specification words them\<close>

text \<open>
  The totals as the specification describes them: each is the rounded sum of the
  values that the invoices hold after the normalization.
\<close>

definition totals_of_held_values :: "'f runtime \<Rightarrow> 'f json \<Rightarrow> bool" where
  "totals_of_held_values R out =
     (summary_slot out ''Total_Pre_VAT_Amount'' =
        Some (JFloat (round2 R (running_sum R (held_values ''Pre_VAT_Amount'' (invoices_of out)))))
      \<and> summary_slot out ''Total_WHT'' =
        Some (JFloat (round2 R (running_sum R (held_values ''WHT'' (invoices_of out))))))"

text \<open>
  The fields as the specification describes them: a finite number that is not
  negative.
\<close>

definition finite_nonneg :: "dfloat \<Rightarrow> bool" where
  "finite_nonneg x = (case x of Finite q \<Rightarrow> 0 \<le> q | _ \<Rightarrow> False)"

definition holds_finite_nonneg :: "dfloat json \<Rightarrow> string \<Rightarrow> bool" where
  "holds_finite_nonneg v key =
     (case field_of v key of Some (JFloat x) \<Rightarrow> finite_nonneg x | _ \<Rightarrow> False)"

section \<open>Dictionaries\<close>

lemma map_of_dict_set:
  "map_of (dict_set k v d) k' = (if k' = k then Some v else map_of d k')"
  by (induction d) auto

lemma keys_dict_set:
  "map_of d k \<noteq> None \<Longrightarrow> map fst (dict_set k v d) = map fst d"
  by (induction d) (auto split: if_splits)

lemma dict_set_same:
  "map_of d k = Some v \<Longrightarrow> dict_set k v d = d"
  by (induction d) (auto split: if_splits)

section \<open>The loop over the invoices\<close>

lemma parse_amount_dict_set:
  "k' \<noteq> k \<Longrightarrow> parse_amount R (dict_set k v d) k' = parse_amount R d k'"
  by (simp add: parse_amount_def dict_get_def map_of_dict_set)

lemma normalize_field_eq:
  "normalize_field R key d t =
     (dict_set key (JFloat (field_result R d key)) d,
      case parse_amount R d key of Some x \<Rightarrow> fadd R t x | None \<Rightarrow> t)"
  by (simp add: normalize_field_def field_result_def split: option.splits)

lemma field_result_dict_set:
  "k' \<noteq> k \<Longrightarrow> field_result R (dict_set k v d) k' = field_result R d k'"
  by (simp add: field_result_def parse_amount_dict_set)

lemma normalize_invoice_dict:
  "normalize_invoice R (JObj d) tp tw =
     Inr (normalized_invoice R (JObj d),
          (case parse_amount R d ''Pre_VAT_Amount'' of Some x \<Rightarrow> fadd R tp x | None \<Rightarrow> tp),
          (case parse_amount R d ''WHT'' of Some x \<Rightarrow> fadd R tw x | None \<Rightarrow> tw))"
  by (simp add: normalize_invoice_def normalized_invoice_def normalize_field_eq
      field_result_dict_set parse_amount_dict_set)

lemma normalize_invoice_other:
  "\<not> is_dict v \<Longrightarrow> normalize_invoice R v tp tw = Inl AttributeError"
  by (cases v) (simp_all add: normalize_invoice_def is_dict_def)

lemma parsed_values_Cons:
  "parsed_values R key (JObj d # invs) =
     (case parse_amount R d key of Some x \<Rightarrow> x # parsed_values R key invs
      | None \<Rightarrow> parsed_values R key invs)"
  by (simp add: parsed_values_def split: option.splits)

lemma invoice_loop_dicts:
  "list_all is_dict invs \<Longrightarrow>
   invoice_loop R invs tp tw =
     Inr (map (normalized_invoice R) invs,
          foldl (fadd R) tp (parsed_values R ''Pre_VAT_Amount'' invs),
          foldl (fadd R) tw (parsed_values R ''WHT'' invs))"
proof (induction invs arbitrary: tp tw)
  case Nil
  then show ?case by (simp add: parsed_values_def)
next
  case (Cons v invs)
  then obtain d where v: "v = JObj d"
    by (cases v) (simp_all add: is_dict_def)
  from Cons.prems have rest: "list_all is_dict invs" by simp
  show ?case
    unfolding v
    by (simp add: normalize_invoice_dict Cons.IH [OF rest] parsed_values_Cons
        split: option.splits)
qed

lemma invoice_loop_error:
  "\<not> list_all is_dict invs \<Longrightarrow> invoice_loop R invs tp tw = Inl AttributeError"
proof (induction invs arbitrary: tp tw)
  case Nil
  then show ?case by simp
next
  case (Cons v invs)
  show ?case
  proof (cases "is_dict v")
    case True
    then obtain d where v: "v = JObj d"
      by (cases v) (simp_all add: is_dict_def)
    from True Cons.prems have "\<not> list_all is_dict invs" by simp
    then show ?thesis
      unfolding v by (simp add: normalize_invoice_dict Cons.IH)
  next
    case False
    then show ?thesis by (simp add: normalize_invoice_other)
  qed
qed


lemma invoice_loop_eq:
  "invoice_loop R invs tp tw =
     (if list_all is_dict invs
      then Inr (map (normalized_invoice R) invs,
                foldl (fadd R) tp (parsed_values R ''Pre_VAT_Amount'' invs),
                foldl (fadd R) tw (parsed_values R ''WHT'' invs))
      else Inl AttributeError)"
  by (simp add: invoice_loop_dicts invoice_loop_error)

section \<open>The result of calculate_summary\<close>

lemma write_summary_dict:
  "map_of data ''Summary'' = Some (JObj s) \<Longrightarrow>
   write_summary R data tp tw =
     Inr (JObj (dict_set ''Summary''
            (JObj (dict_set ''Total_WHT'' (JFloat (round2 R tw))
                    (dict_set ''Total_Pre_VAT_Amount'' (JFloat (round2 R tp)) s)))
            data))"
  by (simp add: write_summary_def)

lemma write_summary_Inr:
  "write_summary R data tp tw = Inr out \<Longrightarrow>
   \<exists>s. map_of data ''Summary'' = Some (JObj s) \<and>
       out = JObj (dict_set ''Summary''
               (JObj (dict_set ''Total_WHT'' (JFloat (round2 R tw))
                       (dict_set ''Total_Pre_VAT_Amount'' (JFloat (round2 R tp)) s)))
               data)"
  by (auto simp: write_summary_def split: option.splits json.splits)


lemma write_summary_isl:
  "map_of data ''Summary'' = None \<Longrightarrow> isl (write_summary R data tp tw)"
  by (simp add: write_summary_def)

lemma invoices_of_JObj:
  "invoices_of (JObj d) = (case map_of d ''Invoices'' of Some (JArr invs) \<Rightarrow> invs | _ \<Rightarrow> [])"
  by (simp add: invoices_of_def field_of_def)

lemma parsed_values_Nil: "parsed_values R key [] = []"
  by (simp add: parsed_values_def)

lemma calculate_summary_contract:
  "invoices_ok d \<Longrightarrow>
   calculate_summary R (JObj d) =
     write_summary R (after_loop R d)
       (running_sum R (parsed_values R ''Pre_VAT_Amount'' (invoices_of (JObj d))))
       (running_sum R (parsed_values R ''WHT'' (invoices_of (JObj d))))"
  by (auto simp: calculate_summary_def invoices_ok_def after_loop_def invoices_of_JObj
      running_sum_def parsed_values_Nil invoice_loop_dicts split: option.splits json.splits)

lemma calculate_summary_Inr:
  assumes run: "calculate_summary R data = Inr out"
  shows "\<exists>d s. data = JObj d \<and> map_of d ''Summary'' = Some (JObj s) \<and>
       list_all is_dict (invoices_of data) \<and>
       out = JObj (dict_set ''Summary''
               (JObj (dict_set ''Total_WHT''
                       (JFloat (round2 R (running_sum R (parsed_values R ''WHT'' (invoices_of data)))))
                       (dict_set ''Total_Pre_VAT_Amount''
                         (JFloat (round2 R (running_sum R
                            (parsed_values R ''Pre_VAT_Amount'' (invoices_of data)))))
                         s)))
               (after_loop R d))"
proof -
  from run obtain d where d: "data = JObj d"
    by (cases data) (simp_all add: calculate_summary_def)
  have ok: "list_all is_dict (invoices_of data)"
    using run unfolding d
    by (auto simp: calculate_summary_def invoice_loop_eq invoices_of_JObj
        split: option.splits json.splits if_splits)
  have "calculate_summary R (JObj d) =
     write_summary R (after_loop R d)
       (running_sum R (parsed_values R ''Pre_VAT_Amount'' (invoices_of (JObj d))))
       (running_sum R (parsed_values R ''WHT'' (invoices_of (JObj d))))"
    using run unfolding d
    by (auto simp: calculate_summary_def after_loop_def invoices_of_JObj
        running_sum_def parsed_values_Nil invoice_loop_eq split: option.splits json.splits if_splits)
  with run d obtain s where s: "map_of (after_loop R d) ''Summary'' = Some (JObj s)"
    and out: "out = JObj (dict_set ''Summary''
               (JObj (dict_set ''Total_WHT''
                       (JFloat (round2 R (running_sum R (parsed_values R ''WHT'' (invoices_of data)))))
                       (dict_set ''Total_Pre_VAT_Amount''
                         (JFloat (round2 R (running_sum R
                            (parsed_values R ''Pre_VAT_Amount'' (invoices_of data)))))
                         s)))
               (after_loop R d))"
    using write_summary_Inr by fastforce
  have s': "map_of d ''Summary'' = Some (JObj s)"
    using s by (auto simp: after_loop_def map_of_dict_set split: option.splits json.splits)
  show ?thesis
    using d out s' ok by blast
qed

lemma map_of_after_loop:
  "k \<noteq> ''Invoices'' \<Longrightarrow> map_of (after_loop R d) k = map_of d k"
  by (auto simp: after_loop_def map_of_dict_set split: option.splits json.splits)

lemma invoices_after_loop:
  "invoices_of (JObj (after_loop R d)) = map (normalized_invoice R) (invoices_of (JObj d))"
  by (auto simp: after_loop_def invoices_of_JObj map_of_dict_set split: option.splits json.splits)

lemma keys_after_loop: "map fst (after_loop R d) = map fst d"
  by (auto simp: after_loop_def keys_dict_set split: option.splits json.splits)

lemma out_invoices:
  "calculate_summary R data = Inr out \<Longrightarrow>
   invoices_of out = map (normalized_invoice R) (invoices_of data)"
proof -
  assume "calculate_summary R data = Inr out"
  from calculate_summary_Inr [OF this] obtain d s where
    "data = JObj d" "out = JObj (dict_set ''Summary'' (JObj s) (after_loop R d))"
    by blast
  then show ?thesis
    using invoices_after_loop [of R d]
    by (simp add: invoices_of_JObj map_of_dict_set)
qed

lemma out_total_pre_vat:
  "calculate_summary R data = Inr out \<Longrightarrow>
   summary_slot out ''Total_Pre_VAT_Amount'' =
     Some (JFloat (round2 R (running_sum R (parsed_values R ''Pre_VAT_Amount'' (invoices_of data)))))"
proof -
  assume "calculate_summary R data = Inr out"
  from calculate_summary_Inr [OF this] show ?thesis
    by (auto simp: summary_slot_def field_of_def map_of_dict_set)
qed

lemma out_total_wht:
  "calculate_summary R data = Inr out \<Longrightarrow>
   summary_slot out ''Total_WHT'' =
     Some (JFloat (round2 R (running_sum R (parsed_values R ''WHT'' (invoices_of data)))))"
proof -
  assume "calculate_summary R data = Inr out"
  from calculate_summary_Inr [OF this] show ?thesis
    by (auto simp: summary_slot_def field_of_def map_of_dict_set)
qed

lemma out_other_slots:
  "calculate_summary R data = Inr out \<Longrightarrow> k \<noteq> ''Total_Pre_VAT_Amount'' \<Longrightarrow> k \<noteq> ''Total_WHT'' \<Longrightarrow>
   summary_slot out k = summary_slot data k"
proof -
  assume "calculate_summary R data = Inr out" and k: "k \<noteq> ''Total_Pre_VAT_Amount''" "k \<noteq> ''Total_WHT''"
  from calculate_summary_Inr [OF this(1)] show ?thesis
    using k by (auto simp: summary_slot_def field_of_def map_of_dict_set)
qed

lemma out_other_fields:
  "calculate_summary R data = Inr out \<Longrightarrow> k \<noteq> ''Invoices'' \<Longrightarrow> k \<noteq> ''Summary'' \<Longrightarrow>
   field_of out k = field_of data k"
proof -
  assume "calculate_summary R data = Inr out" and k: "k \<noteq> ''Invoices''" "k \<noteq> ''Summary''"
  from calculate_summary_Inr [OF this(1)] show ?thesis
    using k by (auto simp: field_of_def map_of_dict_set map_of_after_loop)
qed

lemma out_keys:
  "calculate_summary R data = Inr out \<Longrightarrow>
   \<exists>d d'. data = JObj d \<and> out = JObj d' \<and> map fst d' = map fst d"
proof -
  assume "calculate_summary R data = Inr out"
  from calculate_summary_Inr [OF this] obtain d s s' where
    d: "data = JObj d" and out: "out = JObj (dict_set ''Summary'' (JObj s') (after_loop R d))"
    and s: "map_of d ''Summary'' = Some (JObj s)"
    by metis
  have "map_of (after_loop R d) ''Summary'' \<noteq> None"
    using s by (simp add: map_of_after_loop)
  then have "map fst (dict_set ''Summary'' (JObj s') (after_loop R d)) = map fst d"
    by (simp add: keys_dict_set keys_after_loop)
  with d out show ?thesis by blast
qed

lemma out_invoices_dicts:
  "calculate_summary R data = Inr out \<Longrightarrow> list_all is_dict (invoices_of data)"
proof -
  assume "calculate_summary R data = Inr out"
  from calculate_summary_Inr [OF this] show ?thesis
    by blast
qed

lemma contract_returns:
  "contract d \<Longrightarrow> \<exists>out. calculate_summary R (JObj d) = Inr out"
proof -
  assume c: "contract d"
  then obtain s where "map_of d ''Summary'' = Some (JObj s)"
    by (auto simp: contract_def summary_ok_def split: option.splits json.splits)
  then have "map_of (after_loop R d) ''Summary'' = Some (JObj s)"
    by (simp add: map_of_after_loop)
  then show ?thesis
    using c by (simp add: contract_def calculate_summary_contract write_summary_dict)
qed

lemma field_of_normalized:
  "field_of (normalized_invoice R (JObj d)) key =
     (if key = ''WHT'' then Some (JFloat (field_result R d ''WHT''))
      else if key = ''Pre_VAT_Amount'' then Some (JFloat (field_result R d ''Pre_VAT_Amount''))
      else map_of d key)"
  by (simp add: normalized_invoice_def field_of_def map_of_dict_set)

section \<open>No exception under the contract\<close>

text \<open>
  C6: for every input dictionary in which \<^verbatim>\<open>"Invoices"\<close> is absent or a list of
  dictionaries and \<^verbatim>\<open>"Summary"\<close> is a dictionary, \<^verbatim>\<open>calculate_summary\<close> returns
  a value: no exception escapes, whatever the monetary fields hold and whatever the
  runtime makes of them.
\<close>

theorem calculate_summary_no_exception:
  "contract d \<Longrightarrow> \<exists>out. calculate_summary R (JObj d) = Inr out"
  by (rule contract_returns)

theorem calculate_summary_no_exception_witness:
  "contract mixed_company \<and> (\<exists>out. calculate_summary decimal_rt (JObj mixed_company) = Inr out)"
proof -
  have c: "contract mixed_company"
    by (simp add: mixed_company_def contract_def invoices_ok_def summary_ok_def is_dict_def)
  from c calculate_summary_no_exception [OF c] show ?thesis by blast
qed

section \<open>No invoices\<close>

text \<open>
  C7: when \<^verbatim>\<open>"Invoices"\<close> is absent or an empty list and \<^verbatim>\<open>"Summary"\<close> is a
  dictionary, \<^verbatim>\<open>calculate_summary\<close> returns normally and both totals are \<^verbatim>\<open>0.0\<close>
  (\<^verbatim>\<open>round(0.0, 2)\<close> being \<^verbatim>\<open>0.0\<close>).
\<close>

theorem no_invoices_zero_totals:
  assumes "summary_ok d"
    and "map_of d ''Invoices'' = None \<or> map_of d ''Invoices'' = Some (JArr [])"
    and "round2 R (fzero R) = fzero R"
  shows "\<exists>out. calculate_summary R (JObj d) = Inr out \<and>
           summary_slot out ''Total_Pre_VAT_Amount'' = Some (JFloat (fzero R)) \<and>
           summary_slot out ''Total_WHT'' = Some (JFloat (fzero R))"
proof -
  from assms(2) have inv: "invoices_of (JObj d) = []"
    by (auto simp: invoices_of_JObj)
  from assms(2) have "invoices_ok d"
    by (auto simp: invoices_ok_def)
  with assms(1) have "contract d"
    by (simp add: contract_def)
  then obtain out where out: "calculate_summary R (JObj d) = Inr out"
    using contract_returns by blast
  show ?thesis
    using out out_total_pre_vat [OF out] out_total_wht [OF out] inv assms(3)
    by (simp add: parsed_values_Nil running_sum_def)
qed

theorem no_invoices_zero_totals_witness:
  "summary_ok no_invoices \<and> map_of no_invoices ''Invoices'' = None \<and>
   round2 decimal_rt (fzero decimal_rt) = fzero decimal_rt \<and>
   (\<exists>out. calculate_summary decimal_rt (JObj no_invoices) = Inr out \<and>
      summary_slot out ''Total_Pre_VAT_Amount'' = Some (JFloat (Finite 0)) \<and>
      summary_slot out ''Total_WHT'' = Some (JFloat (Finite 0)))"
proof -
  have s: "summary_ok no_invoices"
    by (simp add: no_invoices_def summary_ok_def)
  have i: "map_of no_invoices ''Invoices'' = None"
    by (simp add: no_invoices_def)
  have r: "round2 decimal_rt (fzero decimal_rt) = fzero decimal_rt"
    by (simp add: decimal_rt_def round_half_even_def)
  have z: "fzero decimal_rt = Finite 0"
    by (simp add: decimal_rt_def)
  from no_invoices_zero_totals [OF s _ r] i s r z show ?thesis
    by auto
qed

section \<open>A missing summary\<close>




section \<open>The summary totals\<close>

text \<open>
  C1, as the specification states it, fails: the loop adds the value before it is
  rounded, so a total is not the rounded sum of the rounded values. Two invoices of
  0.004 hold 0.0 each after the normalization, and the total is 0.01.
\<close>

theorem totals_not_of_rounded_values:
  "contract small_amounts \<and>
   calculate_summary decimal_rt (JObj small_amounts) = Inr small_amounts_once \<and>
   \<not> totals_of_held_values decimal_rt small_amounts_once"
proof -
  have "contract small_amounts"
    by (simp add: small_amounts_def contract_def invoices_ok_def summary_ok_def is_dict_def)
  moreover have "calculate_summary decimal_rt (JObj small_amounts) = Inr small_amounts_once"
    by code_simp
  moreover have "\<not> totals_of_held_values decimal_rt small_amounts_once"
    by code_simp
  ultimately show ?thesis by simp
qed

text \<open>
  C1, amended: under the contract each total is the rounding to 2 decimals of the
  sum, built from 0.0 in the order of the invoices, of the values that parse, before
  they are rounded; a field that does not parse adds nothing. The totals do not depend
  on what the summary held.
\<close>

theorem totals_of_parsed_values:
  assumes "contract d"
  shows "\<exists>out. calculate_summary R (JObj d) = Inr out \<and>
           summary_slot out ''Total_Pre_VAT_Amount'' =
             Some (JFloat (round2 R (running_sum R
                (parsed_values R ''Pre_VAT_Amount'' (invoices_of (JObj d)))))) \<and>
           summary_slot out ''Total_WHT'' =
             Some (JFloat (round2 R (running_sum R
                (parsed_values R ''WHT'' (invoices_of (JObj d))))))"
proof -
  from assms obtain out where out: "calculate_summary R (JObj d) = Inr out"
    using contract_returns by blast
  with out_total_pre_vat [OF out] out_total_wht [OF out] show ?thesis
    by simp
qed

theorem totals_of_parsed_values_witness:
  "contract prompt_example \<and>
   (\<exists>out. calculate_summary decimal_rt (JObj prompt_example) = Inr out \<and>
      summary_slot out ''Total_Pre_VAT_Amount'' = Some (JFloat (Finite 190000)) \<and>
      summary_slot out ''Total_WHT'' = Some (JFloat (Finite 5700)))"
proof -
  have c: "contract prompt_example"
    by (simp add: prompt_example_def contract_def invoices_ok_def summary_ok_def is_dict_def)
  have p: "round2 decimal_rt (running_sum decimal_rt
             (parsed_values decimal_rt ''Pre_VAT_Amount'' (invoices_of (JObj prompt_example))))
           = Finite 190000"
    by code_simp
  have w: "round2 decimal_rt (running_sum decimal_rt
             (parsed_values decimal_rt ''WHT'' (invoices_of (JObj prompt_example))))
           = Finite 5700"
    by code_simp
  from totals_of_parsed_values [OF c, of decimal_rt] c show ?thesis
    unfolding p w by blast
qed

section \<open>The normalization of a field\<close>

text \<open>
  C3: for an invoice of an input under the contract and each of the two monetary
  fields, when the text of the value (the default \<^verbatim>\<open>"0"\<close> for a missing key)
  without its commas parses as the float \<open>x\<close>, the field holds \<^verbatim>\<open>round(x, 2)\<close>
  afterwards. With the decimal runtime \<^verbatim>\<open>"50,000"\<close> becomes 50000.0.
\<close>

theorem field_normalization:
  assumes "contract d"
    and "i < length (invoices_of (JObj d))"
    and "invoices_of (JObj d) ! i = JObj invoice"
    and "key = ''Pre_VAT_Amount'' \<or> key = ''WHT''"
    and "float_of R (strip_commas (py_str R (dict_get invoice key (JStr ''0'')))) = Some x"
  shows "\<exists>out. calculate_summary R (JObj d) = Inr out \<and>
           field_of (invoices_of out ! i) key = Some (JFloat (round2 R x))"
proof -
  from assms(1) obtain out where out: "calculate_summary R (JObj d) = Inr out"
    using contract_returns by blast
  have "invoices_of out ! i = normalized_invoice R (JObj invoice)"
    using out_invoices [OF out] assms(2,3) by simp
  moreover have "field_result R invoice key = round2 R x"
    using assms(5) by (simp add: field_result_def parse_amount_def)
  ultimately have "field_of (invoices_of out ! i) key = Some (JFloat (round2 R x))"
    using assms(4) by (auto simp: field_of_normalized)
  with out show ?thesis by blast
qed

theorem field_normalization_witness:
  "contract mixed_company \<and> 0 < length (invoices_of (JObj mixed_company)) \<and>
   invoices_of (JObj mixed_company) ! 0 =
     JObj [(''Invoice_No'', JStr ''INV-Temp''), (''Pre_VAT_Amount'', JStr ''50,000''),
           (''WHT'', JStr ''N/A'')] \<and>
   float_of decimal_rt (strip_commas (py_str decimal_rt (JStr ''50,000''))) = Some (Finite 50000) \<and>
   (\<exists>out. calculate_summary decimal_rt (JObj mixed_company) = Inr out \<and>
      field_of (invoices_of out ! 0) ''Pre_VAT_Amount'' = Some (JFloat (Finite 50000)))"
proof -
  let ?inv = "[(''Invoice_No'', JStr ''INV-Temp''), (''Pre_VAT_Amount'', JStr ''50,000''),
               (''WHT'', JStr ''N/A'')] :: dfloat dict"
  have c: "contract mixed_company"
    by (simp add: mixed_company_def contract_def invoices_ok_def summary_ok_def is_dict_def)
  have l: "0 < length (invoices_of (JObj mixed_company))"
    by (simp add: mixed_company_def invoices_of_JObj)
  have n: "invoices_of (JObj mixed_company) ! 0 = JObj ?inv"
    by (simp add: mixed_company_def invoices_of_JObj)
  have g: "dict_get ?inv ''Pre_VAT_Amount'' (JStr ''0'') = JStr ''50,000''"
    by (simp add: dict_get_def)
  have f: "float_of decimal_rt (strip_commas (py_str decimal_rt (JStr ''50,000'')))
           = Some (Finite 50000)"
    by code_simp
  have r: "round2 decimal_rt (Finite 50000) = Finite 50000"
    by code_simp
  from field_normalization [OF c l n, of "''Pre_VAT_Amount''" decimal_rt "Finite 50000"] g f r
  have "\<exists>out. calculate_summary decimal_rt (JObj mixed_company) = Inr out \<and>
      field_of (invoices_of out ! 0) ''Pre_VAT_Amount'' = Some (JFloat (Finite 50000))"
    by simp
  with c l n f show ?thesis by blast
qed

text \<open>
  C4: when the text does not parse, the field holds \<^verbatim>\<open>0.0\<close> afterwards, the
  function returns normally and every invoice of the list, the later ones as well,
  is normalized. With the decimal runtime \<^verbatim>\<open>"N/A"\<close> and the empty string do not
  parse.
\<close>

theorem unparsable_field_zero:
  assumes "contract d"
    and "i < length (invoices_of (JObj d))"
    and "invoices_of (JObj d) ! i = JObj invoice"
    and "key = ''Pre_VAT_Amount'' \<or> key = ''WHT''"
    and "float_of R (strip_commas (py_str R (dict_get invoice key (JStr ''0'')))) = None"
  shows "\<exists>out. calculate_summary R (JObj d) = Inr out \<and>
           field_of (invoices_of out ! i) key = Some (JFloat (fzero R)) \<and>
           invoices_of out = map (normalized_invoice R) (invoices_of (JObj d))"
proof -
  from assms(1) obtain out where out: "calculate_summary R (JObj d) = Inr out"
    using contract_returns by blast
  have "invoices_of out ! i = normalized_invoice R (JObj invoice)"
    using out_invoices [OF out] assms(2,3) by simp
  moreover have "field_result R invoice key = fzero R"
    using assms(5) by (simp add: field_result_def parse_amount_def)
  ultimately have "field_of (invoices_of out ! i) key = Some (JFloat (fzero R))"
    using assms(4) by (auto simp: field_of_normalized)
  with out out_invoices [OF out] show ?thesis by blast
qed

theorem unparsable_field_zero_witness:
  "contract mixed_company \<and> 0 < length (invoices_of (JObj mixed_company)) \<and>
   invoices_of (JObj mixed_company) ! 0 =
     JObj [(''Invoice_No'', JStr ''INV-Temp''), (''Pre_VAT_Amount'', JStr ''50,000''),
           (''WHT'', JStr ''N/A'')] \<and>
   float_of decimal_rt (strip_commas (py_str decimal_rt (JStr ''N/A''))) = None \<and>
   float_of decimal_rt (strip_commas (py_str decimal_rt (JStr []))) = None \<and>
   (\<exists>out. calculate_summary decimal_rt (JObj mixed_company) = Inr out \<and>
      field_of (invoices_of out ! 0) ''WHT'' = Some (JFloat (Finite 0)) \<and>
      invoices_of out = map (normalized_invoice decimal_rt) (invoices_of (JObj mixed_company)) \<and>
      field_of (invoices_of out ! 3) ''WHT'' = Some (JFloat (Finite (123457 / 100))))"
proof -
  let ?inv = "[(''Invoice_No'', JStr ''INV-Temp''), (''Pre_VAT_Amount'', JStr ''50,000''),
               (''WHT'', JStr ''N/A'')] :: dfloat dict"
  have c: "contract mixed_company"
    by (simp add: mixed_company_def contract_def invoices_ok_def summary_ok_def is_dict_def)
  have l: "0 < length (invoices_of (JObj mixed_company))"
    by (simp add: mixed_company_def invoices_of_JObj)
  have n: "invoices_of (JObj mixed_company) ! 0 = JObj ?inv"
    by (simp add: mixed_company_def invoices_of_JObj)
  have g: "dict_get ?inv ''WHT'' (JStr ''0'') = JStr ''N/A''"
    by (simp add: dict_get_def)
  have f: "float_of decimal_rt (strip_commas (py_str decimal_rt (JStr ''N/A''))) = None"
    by code_simp
  have e: "float_of decimal_rt (strip_commas (py_str decimal_rt (JStr []))) = None"
    by code_simp
  have z: "fzero decimal_rt = Finite 0"
    by (simp add: decimal_rt_def)
  have last: "field_of (map (normalized_invoice decimal_rt) (invoices_of (JObj mixed_company)) ! 3)
                ''WHT'' = Some (JFloat (Finite (123457 / 100)))"
    by code_simp
  from unparsable_field_zero [OF c l n, of "''WHT''" decimal_rt] g f z
  obtain out where "calculate_summary decimal_rt (JObj mixed_company) = Inr out"
    and "field_of (invoices_of out ! 0) ''WHT'' = Some (JFloat (Finite 0))"
    and "invoices_of out = map (normalized_invoice decimal_rt) (invoices_of (JObj mixed_company))"
    by auto
  with c l n f e last show ?thesis by auto
qed

section \<open>The values of the fields\<close>

text \<open>
  C5, as the specification states it, fails: no value is clamped. The text
  \<^verbatim>\<open>"-5"\<close> leaves the negative number -5.0 in the field, and \<^verbatim>\<open>"inf"\<close> leaves
  an infinity.
\<close>

theorem fields_not_clamped:
  "contract signed_company \<and>
   calculate_summary decimal_rt (JObj signed_company) = Inr signed_company_once \<and>
   \<not> holds_finite_nonneg (invoices_of signed_company_once ! 0) ''Pre_VAT_Amount'' \<and>
   \<not> holds_finite_nonneg (invoices_of signed_company_once ! 0) ''WHT''"
proof -
  have "contract signed_company"
    by (simp add: signed_company_def contract_def invoices_ok_def summary_ok_def is_dict_def)
  moreover have "calculate_summary decimal_rt (JObj signed_company) = Inr signed_company_once"
    by code_simp
  moreover have "\<not> holds_finite_nonneg (invoices_of signed_company_once ! 0) ''Pre_VAT_Amount''"
    by code_simp
  moreover have "\<not> holds_finite_nonneg (invoices_of signed_company_once ! 0) ''WHT''"
    by code_simp
  ultimately show ?thesis by simp
qed

text \<open>
  C5, amended: under the contract every entry of the invoice list is a dictionary, and
  afterwards each of its two monetary fields holds a float: \<^verbatim>\<open>round(x, 2)\<close> when the
  text of the input value (the default \<^verbatim>\<open>"0"\<close> for a missing key) without its commas
  parses as the float \<open>x\<close>, whatever its sign and whether it is finite, and
  \<^verbatim>\<open>0.0\<close> when the text does not parse.
\<close>

theorem fields_hold_rounded_parse:
  assumes "contract d"
  shows "\<exists>out. calculate_summary R (JObj d) = Inr out \<and>
           length (invoices_of out) = length (invoices_of (JObj d)) \<and>
           list_all is_dict (invoices_of (JObj d)) \<and>
           (\<forall>i invoice key.
              i < length (invoices_of (JObj d)) \<longrightarrow>
              invoices_of (JObj d) ! i = JObj invoice \<longrightarrow>
              key = ''Pre_VAT_Amount'' \<or> key = ''WHT'' \<longrightarrow>
              field_of (invoices_of out ! i) key =
                Some (JFloat
                  (case float_of R (strip_commas (py_str R (dict_get invoice key (JStr ''0'')))) of
                     Some x \<Rightarrow> round2 R x
                   | None \<Rightarrow> fzero R)))"
proof -
  from assms obtain out where out: "calculate_summary R (JObj d) = Inr out"
    using contract_returns by blast
  note inv = out_invoices [OF out]
  have "field_of (invoices_of out ! i) key =
          Some (JFloat
            (case float_of R (strip_commas (py_str R (dict_get invoice key (JStr ''0'')))) of
               Some x \<Rightarrow> round2 R x
             | None \<Rightarrow> fzero R))"
    if "i < length (invoices_of (JObj d))" "invoices_of (JObj d) ! i = JObj invoice"
      "key = ''Pre_VAT_Amount'' \<or> key = ''WHT''" for i invoice key
  proof -
    have "invoices_of out ! i = normalized_invoice R (JObj invoice)"
      using that(1,2) by (simp add: inv)
    then show ?thesis
      using that(3) by (auto simp: field_of_normalized field_result_def parse_amount_def)
  qed
  moreover have "length (invoices_of out) = length (invoices_of (JObj d))"
    by (simp add: inv)
  moreover note out_invoices_dicts [OF out]
  ultimately show ?thesis
    using out by (intro exI [of _ out]) simp
qed

theorem fields_hold_rounded_parse_witness:
  "contract signed_company \<and>
   calculate_summary decimal_rt (JObj signed_company) = Inr signed_company_once \<and>
   invoices_of (JObj signed_company) ! 0 =
     JObj [(''Pre_VAT_Amount'', JStr ''-5''), (''WHT'', JStr ''inf'')] \<and>
   field_of (invoices_of signed_company_once ! 0) ''Pre_VAT_Amount'' = Some (JFloat (Finite (- 5))) \<and>
   field_of (invoices_of signed_company_once ! 0) ''WHT'' = Some (JFloat PosInf)"
proof -
  let ?inv = "[(''Pre_VAT_Amount'', JStr ''-5''), (''WHT'', JStr ''inf'')] :: dfloat dict"
  have c: "contract signed_company"
    by (simp add: signed_company_def contract_def invoices_ok_def summary_ok_def is_dict_def)
  have run: "calculate_summary decimal_rt (JObj signed_company) = Inr signed_company_once"
    by code_simp
  have l: "0 < length (invoices_of (JObj signed_company))"
    by (simp add: signed_company_def invoices_of_JObj)
  have n: "invoices_of (JObj signed_company) ! 0 = JObj ?inv"
    by (simp add: signed_company_def invoices_of_JObj)
  have p: "(case float_of decimal_rt
                (strip_commas (py_str decimal_rt (dict_get ?inv ''Pre_VAT_Amount'' (JStr ''0'')))) of
              Some x \<Rightarrow> round2 decimal_rt x | None \<Rightarrow> fzero decimal_rt) = Finite (- 5)"
    by code_simp
  have w: "(case float_of decimal_rt
                (strip_commas (py_str decimal_rt (dict_get ?inv ''WHT'' (JStr ''0'')))) of
              Some x \<Rightarrow> round2 decimal_rt x | None \<Rightarrow> fzero decimal_rt) = PosInf"
    by code_simp
  from fields_hold_rounded_parse [OF c, of decimal_rt] obtain out where h:
    "calculate_summary decimal_rt (JObj signed_company) = Inr out \<and>
           length (invoices_of out) = length (invoices_of (JObj signed_company)) \<and>
           list_all is_dict (invoices_of (JObj signed_company)) \<and>
           (\<forall>i invoice key.
              i < length (invoices_of (JObj signed_company)) \<longrightarrow>
              invoices_of (JObj signed_company) ! i = JObj invoice \<longrightarrow>
              key = ''Pre_VAT_Amount'' \<or> key = ''WHT'' \<longrightarrow>
              field_of (invoices_of out ! i) key =
                Some (JFloat
                  (case float_of decimal_rt
                          (strip_commas (py_str decimal_rt (dict_get invoice key (JStr ''0'')))) of
                     Some x \<Rightarrow> round2 decimal_rt x
                   | None \<Rightarrow> fzero decimal_rt)))" ..
  from h [THEN conjunct1] run have o: "out = signed_company_once"
    by simp
  note f = h [THEN conjunct2, THEN conjunct2, THEN conjunct2, rule_format, OF l n]
  have kp: "''Pre_VAT_Amount'' = ''Pre_VAT_Amount'' \<or> ''Pre_VAT_Amount'' = ''WHT''"
    by simp
  have kw: "''WHT'' = ''Pre_VAT_Amount'' \<or> ''WHT'' = ''WHT''"
    by simp
  have fp: "field_of (invoices_of signed_company_once ! 0) ''Pre_VAT_Amount'' =
      Some (JFloat (Finite (- 5)))"
    using f [OF kp] unfolding p o .
  have fw: "field_of (invoices_of signed_company_once ! 0) ''WHT'' = Some (JFloat PosInf)"
    using f [OF kw] unfolding w o .
  from c run n fp fw show ?thesis
    by (intro conjI)
qed

section \<open>What calculate_summary leaves as it is\<close>

lemma field_of_normalized_other:
  "key \<noteq> ''Pre_VAT_Amount'' \<Longrightarrow> key \<noteq> ''WHT'' \<Longrightarrow>
   field_of (normalized_invoice R v) key = field_of v key"
  by (cases v) (simp_all add: normalized_invoice_def field_of_def map_of_dict_set)

text \<open>
  C9: whenever \<^verbatim>\<open>calculate_summary\<close> returns, the result has the keys of the input
  in their order, every key other than \<^verbatim>\<open>"Invoices"\<close> and \<^verbatim>\<open>"Summary"\<close> has its
  value, the summary has every slot other than the two totals as before, the invoice
  list has the same length, its i-th entry is the i-th entry of the input after the
  two \<^verbatim>\<open>try\<close> blocks, and every key of an entry other than the two monetary fields
  has its value.
\<close>

theorem frame_of_calculate_summary:
  assumes "calculate_summary R data = Inr out"
  shows "(\<exists>d d'. data = JObj d \<and> out = JObj d' \<and> map fst d' = map fst d) \<and>
         (\<forall>k. k \<noteq> ''Invoices'' \<and> k \<noteq> ''Summary'' \<longrightarrow> field_of out k = field_of data k) \<and>
         (\<forall>k. k \<noteq> ''Total_Pre_VAT_Amount'' \<and> k \<noteq> ''Total_WHT'' \<longrightarrow>
              summary_slot out k = summary_slot data k) \<and>
         invoices_of out = map (normalized_invoice R) (invoices_of data) \<and>
         length (invoices_of out) = length (invoices_of data) \<and>
         (\<forall>i k. i < length (invoices_of data) \<and> k \<noteq> ''Pre_VAT_Amount'' \<and> k \<noteq> ''WHT'' \<longrightarrow>
              field_of (invoices_of out ! i) k = field_of (invoices_of data ! i) k)"
proof -
  note inv = out_invoices [OF assms]
  have "field_of (invoices_of out ! i) k = field_of (invoices_of data ! i) k"
    if "i < length (invoices_of data)" "k \<noteq> ''Pre_VAT_Amount''" "k \<noteq> ''WHT''" for i k
    using that by (simp add: inv field_of_normalized_other)
  then show ?thesis
    using out_keys [OF assms] out_other_fields [OF assms] out_other_slots [OF assms] inv
    by simp
qed

theorem frame_of_calculate_summary_witness:
  "calculate_summary decimal_rt (JObj prompt_example) = Inr prompt_example_once \<and>
   field_of prompt_example_once ''Receiver'' = Some (JStr ''ABC Company (Sender Company)'') \<and>
   field_of prompt_example_once ''Tax_Condition'' = field_of (JObj prompt_example) ''Tax_Condition'' \<and>
   length (invoices_of prompt_example_once) = 3 \<and>
   field_of (invoices_of prompt_example_once ! 1) ''Description'' =
     Some (JStr ''Home charger installation for GAC - 06/2025'')"
proof -
  have run: "calculate_summary decimal_rt (JObj prompt_example) = Inr prompt_example_once"
    by code_simp
  note f = frame_of_calculate_summary [OF run]
  have r: "field_of (JObj prompt_example) ''Receiver'' = Some (JStr ''ABC Company (Sender Company)'')"
    by (simp add: prompt_example_def field_of_def)
  have l: "length (invoices_of (JObj prompt_example)) = 3"
    by (simp add: prompt_example_def invoices_of_JObj)
  have d: "field_of (invoices_of (JObj prompt_example) ! 1) ''Description'' =
     Some (JStr ''Home charger installation for GAC - 06/2025'')"
    by (simp add: prompt_example_def invoices_of_JObj field_of_def)
  note others = f [THEN conjunct2, THEN conjunct1, rule_format]
  note len = f [THEN conjunct2, THEN conjunct2, THEN conjunct2, THEN conjunct2, THEN conjunct1]
  note keys = f [THEN conjunct2, THEN conjunct2, THEN conjunct2, THEN conjunct2, THEN conjunct2,
      rule_format]
  have "field_of prompt_example_once ''Receiver'' = field_of (JObj prompt_example) ''Receiver''"
    by (rule others) simp
  moreover have "field_of prompt_example_once ''Tax_Condition'' =
      field_of (JObj prompt_example) ''Tax_Condition''"
    by (rule others) simp
  moreover have "field_of (invoices_of prompt_example_once ! 1) ''Description'' =
      field_of (invoices_of (JObj prompt_example) ! 1) ''Description''"
    by (rule keys) (simp add: l)
  ultimately show ?thesis
    using run r l d len by simp
qed

section \<open>A reply that is not JSON\<close>

lemma process_one_company_decode:
  "json_loads S (chat_reply S files) = None \<Longrightarrow>
   process_one_company R S files = Inl JSONDecodeError"
  by (simp add: process_one_company_def)

lemma companies_loop_fails:
  "i < length sets \<Longrightarrow> isl (process_one_company R S (sets ! i)) \<Longrightarrow>
   isl (companies_loop R S sets companies)"
proof (induction sets arbitrary: i companies)
  case Nil
  then show ?case by simp
next
  case (Cons files rest)
  show ?case
  proof (cases "process_one_company R S files")
    case (Inl e)
    then show ?thesis by simp
  next
    case (Inr c)
    with Cons.prems obtain j where "i = Suc j"
      by (cases i) auto
    with Cons.prems Cons.IH [of j] Inr show ?thesis by simp
  qed
qed

lemma companies_loop_first_failure:
  "i < length sets \<Longrightarrow> process_one_company R S (sets ! i) = Inl e \<Longrightarrow>
   (\<forall>j<i. \<exists>c. process_one_company R S (sets ! j) = Inr c) \<Longrightarrow>
   companies_loop R S sets companies = Inl e"
proof (induction sets arbitrary: i companies)
  case Nil
  then show ?case by simp
next
  case (Cons files rest)
  show ?case
  proof (cases i)
    case 0
    with Cons.prems show ?thesis by simp
  next
    case (Suc j)
    with Cons.prems(3) obtain c where c: "process_one_company R S files = Inr c"
      by fastforce
    have "\<forall>k<j. \<exists>c. process_one_company R S (rest ! k) = Inr c"
      using Cons.prems(3) Suc by fastforce
    with Cons.IH [of j] Cons.prems(1,2) Suc c show ?thesis by simp
  qed
qed

text \<open>
  C8: when the reply for company \<open>n\<close> does not decode,
  \<^verbatim>\<open>process_multiple_companies\<close> returns no envelope: it ends with an exception,
  whatever the other companies are. When the companies before \<open>n\<close> were processed,
  the exception is the JSONDecodeError; their results are in no value that the function
  returns. The model calls the chat endpoint once for each company, and the decoding
  failure is not a value of a field.
\<close>

theorem undecodable_reply_aborts_batch:
  assumes "n < length invoice_sets"
    and "json_loads S (chat_reply S (invoice_sets ! n)) = None"
  shows "isl (process_multiple_companies R S invoice_sets) \<and>
         ((\<forall>j<n. \<exists>c. process_one_company R S (invoice_sets ! j) = Inr c) \<longrightarrow>
          process_multiple_companies R S invoice_sets = Inl JSONDecodeError)"
proof -
  note dec = process_one_company_decode [OF assms(2), of R]
  have "isl (process_one_company R S (invoice_sets ! n))"
    using dec by simp
  then have "isl (companies_loop R S invoice_sets [])"
    by (rule companies_loop_fails [OF assms(1)])
  moreover have "companies_loop R S invoice_sets [] = Inl JSONDecodeError"
    if "\<forall>j<n. \<exists>c. process_one_company R S (invoice_sets ! j) = Inr c"
    using companies_loop_first_failure [OF assms(1) dec that] .
  ultimately show ?thesis
    by (auto simp: process_multiple_companies_def split: sum.splits)
qed

theorem undecodable_reply_aborts_batch_witness:
  \<open>(1::nat) < length [[''{"Summary": '', ''{}}''], [''not json'']] \<and>
   json_loads canned_services
     (chat_reply canned_services ([[''{"Summary": '', ''{}}''], [''not json'']] ! 1)) = None \<and>
   process_one_company decimal_rt canned_services ([[''{"Summary": '', ''{}}''], [''not json'']] ! 0)
     = Inr (JObj [(''Summary'', JObj [(''Total_Pre_VAT_Amount'', JFloat (Finite 0)),
                                     (''Total_WHT'', JFloat (Finite 0))])]) \<and>
   process_multiple_companies decimal_rt canned_services [[''{"Summary": '', ''{}}''], [''not json'']]
     = Inl JSONDecodeError\<close>
proof -
  let ?sets = \<open>[[''{"Summary": '', ''{}}''], [''not json'']]\<close>
  have l: "(1::nat) < length ?sets" by simp
  have n: "json_loads canned_services (chat_reply canned_services (?sets ! 1)) = None"
    by (simp add: canned_services_def)
  have p: \<open>process_one_company decimal_rt canned_services (?sets ! 0)
     = Inr (JObj [(''Summary'', JObj [(''Total_Pre_VAT_Amount'', JFloat (Finite 0)),
                                     (''Total_WHT'', JFloat (Finite 0))])])\<close>
    by code_simp
  have "\<forall>j<(1::nat). \<exists>c. process_one_company decimal_rt canned_services (?sets ! j) = Inr c"
    using p by simp
  with undecodable_reply_aborts_batch [OF l n, of decimal_rt] l n p show ?thesis
    by blast
qed

section \<open>The decimal runtime keeps the laws\<close>

declare show_digits.simps [simp del]

lemma round_half_even_of_int: "round_half_even (of_int k) = k"
  by (simp add: round_half_even_def)

lemma dec_round2_idem: "dec_round2 (dec_round2 x) = dec_round2 x"
  by (cases x) (simp_all add: round_half_even_of_int)

lemma digit_cases:
  "0 \<le> d \<Longrightarrow> d < 10 \<Longrightarrow> d \<in> {0, 1, 2, 3, 4, 5, 6, 7, 8, 9 :: int}"
proof -
  assume "0 \<le> d" "d < 10"
  then have "d = 0 \<or> d = 1 \<or> d = 2 \<or> d = 3 \<or> d = 4 \<or> d = 5 \<or> d = 6 \<or> d = 7 \<or> d = 8 \<or> d = 9"
    by arith
  then show ?thesis by simp
qed

lemma digit_char_digit:
  assumes "0 \<le> d" "d < 10"
  shows "is_digit (digit_char d) \<and> digit_val (digit_char d) = d"
proof -
  have "\<forall>e \<in> {0, 1, 2, 3, 4, 5, 6, 7, 8, 9 :: int}. is_digit (digit_char e) \<and> digit_val (digit_char e) = e"
    by code_simp
  with digit_cases [OF assms] show ?thesis by blast
qed

lemma is_digit_props:
  assumes "is_digit c"
  shows "lower c = c \<and> \<not> is_space c \<and> c \<noteq> CHR ''_'' \<and> c \<noteq> CHR '','' \<and> c \<noteq> CHR ''.''
         \<and> c \<noteq> CHR ''-'' \<and> c \<noteq> CHR ''+'' \<and> c \<noteq> CHR ''i'' \<and> c \<noteq> CHR ''n''"
proof -
  have "\<forall>e \<in> set ''0123456789''. lower e = e \<and> \<not> is_space e \<and> e \<noteq> CHR ''_'' \<and> e \<noteq> CHR '',''
      \<and> e \<noteq> CHR ''.'' \<and> e \<noteq> CHR ''-'' \<and> e \<noteq> CHR ''+'' \<and> e \<noteq> CHR ''i'' \<and> e \<noteq> CHR ''n''"
    by code_simp
  with assms show ?thesis
    unfolding is_digit_def by blast
qed

lemma int_of_digits_snoc:
  "int_of_digits (ds @ [c]) = 10 * int_of_digits ds + digit_val c"
  by (simp add: int_of_digits_def)

lemma int_of_digits_append:
  "int_of_digits (xs @ ys) = int_of_digits xs * 10 ^ length ys + int_of_digits ys"
proof (induction ys rule: rev_induct)
  case Nil
  then show ?case by (simp add: int_of_digits_def)
next
  case (snoc y ys)
  have "int_of_digits (xs @ ys @ [y]) = 10 * int_of_digits (xs @ ys) + digit_val y"
    using int_of_digits_snoc [of "xs @ ys" y] by simp
  also have "\<dots> = int_of_digits xs * 10 ^ length (ys @ [y]) + int_of_digits (ys @ [y])"
    by (simp add: snoc.IH int_of_digits_snoc algebra_simps)
  finally show ?case by simp
qed

lemma show_digits_props:
  "0 \<le> n \<Longrightarrow>
   list_all is_digit (show_digits n) \<and> show_digits n \<noteq> [] \<and> int_of_digits (show_digits n) = n"
proof (induction n rule: show_digits.induct)
  case (1 n)
  show ?case
  proof (cases "n < 10")
    case True
    with "1.prems" digit_char_digit [of n] show ?thesis
      by (simp add: show_digits.simps [of n] int_of_digits_def)
  next
    case False
    with "1.prems" have ih: "list_all is_digit (show_digits (n div 10))"
      "int_of_digits (show_digits (n div 10)) = n div 10"
      using "1.IH" by simp_all
    have d: "is_digit (digit_char (n mod 10))" "digit_val (digit_char (n mod 10)) = n mod 10"
      using digit_char_digit [of "n mod 10"] by simp_all
    from False ih d show ?thesis
      by (simp add: show_digits.simps [of n] int_of_digits_snoc)
  qed
qed

lemma frac_digits_hundredths:
  assumes "0 \<le> j" "j < 100"
  shows "frac_digits (Suc (Suc n)) (of_int j / 100) =
           (if j mod 10 = 0 then [digit_char (j div 10)]
            else [digit_char (j div 10), digit_char (j mod 10)])"
proof -
  have t: "(of_int j / 100 :: rat) * 10 = of_int j / of_int 10"
    by simp
  have fl: "\<lfloor>of_int j / of_int 10 :: rat\<rfloor> = j div 10"
    by (rule floor_divide_of_int_eq)
  have eq: "(of_int j / of_int 10 :: rat) = of_int (j div 10) \<longleftrightarrow> j mod 10 = 0"
  proof
    assume "(of_int j / of_int 10 :: rat) = of_int (j div 10)"
    then have "(of_int j :: rat) = of_int (j div 10 * 10)"
      by (simp add: field_simps)
    then have "j = j div 10 * 10"
      by (simp only: of_int_eq_iff)
    then show "j mod 10 = 0"
      by presburger
  next
    assume "j mod 10 = 0"
    then have "j = j div 10 * 10" by presburger
    then have "(of_int j :: rat) = of_int (j div 10) * 10"
      by (metis of_int_mult of_int_numeral)
    then show "(of_int j / of_int 10 :: rat) = of_int (j div 10)"
      by simp
  qed
  have rest: "(of_int j / of_int 10 :: rat) - of_int (j div 10) = of_int (j mod 10) / 10"
  proof -
    have "j = j div 10 * 10 + j mod 10" by simp
    then have "(of_int j :: rat) = of_int (j div 10) * 10 + of_int (j mod 10)"
      by (metis of_int_add of_int_mult of_int_numeral)
    then show ?thesis by (simp add: field_simps)
  qed
  have second: "frac_digits (Suc n) (of_int (j mod 10) / 10) = [digit_char (j mod 10)]"
    by simp
  show ?thesis
    by (simp only: frac_digits.simps Let_def t fl eq rest second) simp
qed

lemma parse_decimal_plain:
  assumes "list_all is_digit ds" "ds \<noteq> []" "list_all is_digit fd" "fd \<noteq> []"
  shows "parse_decimal (ds @ CHR ''.'' # fd) =
           Some (of_int (int_of_digits (ds @ fd)) / 10 ^ length fd)"
proof -
  have nd: "\<not> is_digit CHR ''.''"
    by (simp add: is_digit_def)
  have tw: "takeWhile is_digit (ds @ CHR ''.'' # fd) = ds"
    using assms(1) nd by (simp add: takeWhile_append2 list_all_iff)
  have dw: "dropWhile is_digit (ds @ CHR ''.'' # fd) = CHR ''.'' # fd"
    using assms(1) nd by (simp add: dropWhile_append2 list_all_iff)
  have tf: "takeWhile is_digit fd = fd"
    using assms(3) by (simp add: takeWhile_eq_all_conv list_all_iff)
  have df: "dropWhile is_digit fd = []"
    using assms(3) by (simp add: list_all_iff)
  have sc: "scale10 q (- int (length fd)) = q / 10 ^ length fd" for q
    using assms(4) by (simp add: scale10_def)
  show ?thesis
    using assms(2) by (simp add: parse_decimal_def tw dw tf df parse_exponent_def sc)
qed


lemma strip_ws_plain:
  assumes "s \<noteq> []" "\<not> is_space (hd s)" "\<not> is_space (last s)"
  shows "strip_ws s = s"
proof -
  from assms(1,2) have "dropWhile is_space s = s"
    by (cases s) simp_all
  moreover from assms(1,3) have "dropWhile is_space (rev s) = rev s"
    by (cases "rev s") (simp_all add: last_rev [symmetric] del: last_rev)
  ultimately show ?thesis
    by (simp add: strip_ws_def)
qed

lemma underscores_ok_plain:
  "CHR ''_'' \<notin> set s \<Longrightarrow> prev \<noteq> CHR ''_'' \<Longrightarrow> underscores_ok prev s"
  by (induction s arbitrary: prev) auto

lemma float_parse_plain:
  assumes ds: "list_all is_digit ds" "ds \<noteq> []" and fd: "list_all is_digit fd" "fd \<noteq> []"
  shows "float_parse ((if neg then ''-'' else []) @ ds @ CHR ''.'' # fd) =
           Some (Finite (if neg then - (of_int (int_of_digits (ds @ fd)) / 10 ^ length fd)
                         else of_int (int_of_digits (ds @ fd)) / 10 ^ length fd))"
proof -
  define u where "u = ds @ CHR ''.'' # fd"
  define s where "s = (if neg then ''-'' else []) @ u"
  from ds obtain d ds' where d: "ds = d # ds'" "is_digit d"
    by (cases ds) simp_all
  have digits: "is_digit c" if "c \<in> set ds \<or> c \<in> set fd" for c
    using that ds(1) fd(1) by (auto simp: list_all_iff)
  have sp: "\<not> is_space CHR ''-''"
    by (simp add: is_space_def)
  have hd_ok: "\<not> is_space (hd s)"
    using d is_digit_props [of d] sp by (simp add: s_def u_def)
  have "last s = last fd"
    using fd(2) by (simp add: s_def u_def)
  moreover have "is_digit (last fd)"
    using fd(2) digits by simp
  ultimately have last_ok: "\<not> is_space (last s)"
    using is_digit_props by simp
  have "s \<noteq> []"
    by (simp add: s_def u_def)
  then have strip: "strip_ws s = s"
    by (rule strip_ws_plain [OF _ hd_ok last_ok])
  have no_us: "CHR ''_'' \<notin> set s"
    using digits is_digit_props by (auto simp: s_def u_def)
  have us: "underscores_ok (CHR 0x00) s"
    by (rule underscores_ok_plain [OF no_us]) simp
  have filt: "filter (\<lambda>c. c \<noteq> CHR ''_'') s = s"
    using no_us by (simp only: filter_id_conv) blast
  have sign: "split_sign s = (neg, u)"
    using d is_digit_props [of d] by (simp add: split_sign_def s_def u_def)
  have low: "map lower u = d # map lower (ds' @ CHR ''.'' # fd)"
    using d is_digit_props [of d] by (simp add: u_def)
  have not_word: "map lower u \<noteq> ''inf''" "map lower u \<noteq> ''infinity''" "map lower u \<noteq> ''nan''"
    using d(2) is_digit_props [of d] unfolding low by auto
  have pd: "parse_decimal u = Some (of_int (int_of_digits (ds @ fd)) / 10 ^ length fd)"
    unfolding u_def by (rule parse_decimal_plain [OF ds fd])
  have "float_parse s =
           Some (Finite (if neg then - (of_int (int_of_digits (ds @ fd)) / 10 ^ length fd)
                         else of_int (int_of_digits (ds @ fd)) / 10 ^ length fd))"
    by (simp add: float_parse_def strip us filt sign not_word pd)
  then show ?thesis
    by (simp only: s_def u_def)
qed

lemma frac_digits_value:
  assumes "0 \<le> j" "j < 100"
  shows "list_all is_digit (frac_digits 17 (of_int j / 100)) \<and>
         frac_digits 17 (of_int j / 100) \<noteq> [] \<and>
         (of_int (int_of_digits (frac_digits 17 (of_int j / 100))) :: rat)
           / 10 ^ length (frac_digits 17 (of_int j / 100)) = of_int j / 100"
proof -
  have n: "(17::nat) = Suc (Suc 15)" by simp
  have fd: "frac_digits 17 (of_int j / 100) =
           (if j mod 10 = 0 then [digit_char (j div 10)]
            else [digit_char (j div 10), digit_char (j mod 10)])"
    unfolding n by (rule frac_digits_hundredths [OF assms])
  have hi: "is_digit (digit_char (j div 10))" "digit_val (digit_char (j div 10)) = j div 10"
    using digit_char_digit [of "j div 10"] assms by simp_all
  have lo: "is_digit (digit_char (j mod 10))" "digit_val (digit_char (j mod 10)) = j mod 10"
    using digit_char_digit [of "j mod 10"] by simp_all
  show ?thesis
  proof (cases "j mod 10 = 0")
    case True
    then have "j = j div 10 * 10" by presburger
    then have "(of_int j :: rat) = of_int (j div 10) * 10"
      by (metis of_int_mult of_int_numeral)
    then have val: "(of_int (j div 10) :: rat) / 10 = of_int j / 100"
      by simp
    show ?thesis
      using True hi val by (simp add: fd int_of_digits_def)
  next
    case False
    have "j = j div 10 * 10 + j mod 10" by simp
    then have "(of_int j :: rat) = of_int (j div 10) * 10 + of_int (j mod 10)"
      by (metis of_int_add of_int_mult of_int_numeral)
    then have val: "(of_int (10 * (j div 10) + j mod 10) :: rat) / 100 = of_int j / 100"
      by simp
    show ?thesis
      using False hi lo val by (simp add: fd int_of_digits_def)
  qed
qed

lemma float_repr_hundredths:
  "float_repr (Finite (of_int k / 100)) =
     (if k < 0 then ''-'' else []) @ show_digits (\<bar>k\<bar> div 100) @ CHR ''.'' #
       frac_digits 17 (of_int (\<bar>k\<bar> mod 100) / 100)"
proof -
  have ab: "\<bar>of_int k / 100 :: rat\<bar> = of_int \<bar>k\<bar> / of_int 100"
    by simp
  have fl: "\<lfloor>of_int \<bar>k\<bar> / of_int 100 :: rat\<rfloor> = \<bar>k\<bar> div 100"
    by (rule floor_divide_of_int_eq)
  have "\<bar>k\<bar> = \<bar>k\<bar> div 100 * 100 + \<bar>k\<bar> mod 100" by simp
  then have "(of_int \<bar>k\<bar> :: rat) = of_int (\<bar>k\<bar> div 100) * 100 + of_int (\<bar>k\<bar> mod 100)"
    by (metis of_int_add of_int_mult of_int_numeral)
  then have fr: "(of_int \<bar>k\<bar> / of_int 100 :: rat) - of_int (\<bar>k\<bar> div 100) = of_int (\<bar>k\<bar> mod 100) / 100"
    by (simp add: field_simps)
  have neg: "(of_int k / 100 :: rat) < 0 \<longleftrightarrow> k < 0"
    by simp
  show ?thesis
    unfolding float_repr_def dfloat.case ab fl fr neg by simp
qed

lemma repr_parse_hundredths:
  "float_parse (strip_commas (float_repr (Finite (of_int k / 100)))) = Some (Finite (of_int k / 100))"
proof -
  define ds where "ds = show_digits (\<bar>k\<bar> div 100)"
  define fd where "fd = frac_digits 17 (of_int (\<bar>k\<bar> mod 100) / 100)"
  define s where "s = (if k < 0 then ''-'' else []) @ ds @ CHR ''.'' # fd"
  have n: "0 \<le> \<bar>k\<bar> div 100"
    by (simp add: pos_imp_zdiv_nonneg_iff)
  have dsp: "list_all is_digit ds" "ds \<noteq> []" "int_of_digits ds = \<bar>k\<bar> div 100"
    using show_digits_props [OF n] by (simp_all add: ds_def)
  have j: "0 \<le> \<bar>k\<bar> mod 100" "\<bar>k\<bar> mod 100 < 100"
    by simp_all
  have fdp: "list_all is_digit fd" "fd \<noteq> []"
    "(of_int (int_of_digits fd) :: rat) / 10 ^ length fd = of_int (\<bar>k\<bar> mod 100) / 100"
    using frac_digits_value [OF j] by (simp_all add: fd_def)
  have repr: "float_repr (Finite (of_int k / 100)) = s"
    by (simp add: float_repr_hundredths s_def ds_def fd_def)
  have "CHR '','' \<notin> set s"
    using dsp(1) fdp(1) is_digit_props by (auto simp: s_def list_all_iff)
  then have sc: "strip_commas s = s"
    unfolding strip_commas_def by (simp only: filter_id_conv) blast
  have "\<bar>k\<bar> = \<bar>k\<bar> div 100 * 100 + \<bar>k\<bar> mod 100" by simp
  then have split: "(of_int \<bar>k\<bar> :: rat) = of_int (\<bar>k\<bar> div 100) * 100 + of_int (\<bar>k\<bar> mod 100)"
    by (metis of_int_add of_int_mult of_int_numeral)
  have "(of_int (int_of_digits (ds @ fd)) :: rat) / 10 ^ length fd
        = of_int (\<bar>k\<bar> div 100) + of_int (int_of_digits fd) / 10 ^ length fd"
    by (simp add: int_of_digits_append dsp(3) field_simps)
  also have "\<dots> = of_int \<bar>k\<bar> / 100"
    unfolding fdp(3) split by (simp add: add_divide_distrib)
  finally have v: "(of_int (int_of_digits (ds @ fd)) :: rat) / 10 ^ length fd = of_int \<bar>k\<bar> / 100" .
  have "float_parse s = Some (Finite (if k < 0 then - (of_int \<bar>k\<bar> / 100) else of_int \<bar>k\<bar> / 100))"
    unfolding s_def float_parse_plain [OF dsp(1,2) fdp(1,2)] v ..
  also have "(if k < 0 then - (of_int \<bar>k\<bar> / 100) else of_int \<bar>k\<bar> / 100) = (of_int k / 100 :: rat)"
    by simp
  finally show ?thesis
    by (simp add: repr sc)
qed

lemma repr_parse_rounded:
  "float_parse (strip_commas (float_repr (dec_round2 x))) = Some (dec_round2 x)"
proof (cases x)
  case (Finite q)
  then show ?thesis by (simp add: repr_parse_hundredths)
next
  case PosInf
  have "float_parse (strip_commas (float_repr PosInf)) = Some PosInf" by code_simp
  with PosInf show ?thesis by simp
next
  case NegInf
  have "float_parse (strip_commas (float_repr NegInf)) = Some NegInf" by code_simp
  with NegInf show ?thesis by simp
next
  case NaN
  have "float_parse (strip_commas (float_repr NaN)) = Some NaN" by code_simp
  with NaN show ?thesis by simp
qed

lemma decimal_rt_laws: "runtime_laws decimal_rt"
  by (simp add: runtime_laws_def decimal_rt_def repr_parse_rounded dec_round2_idem
      round_half_even_def)

section \<open>A second call\<close>

lemma field_result_rounded:
  "runtime_laws R \<Longrightarrow> \<exists>x. field_result R d key = round2 R x"
  by (auto simp: field_result_def runtime_laws_def split: option.splits) metis

lemma settled_float:
  assumes "runtime_laws R"
  shows "float_of R (strip_commas (py_str R (JFloat (field_result R d key)))) =
           Some (field_result R d key) \<and>
         round2 R (field_result R d key) = field_result R d key"
proof -
  from field_result_rounded [OF assms] obtain x where "field_result R d key = round2 R x"
    by blast
  with assms show ?thesis
    by (simp add: runtime_laws_def py_str_def)
qed

lemma field_result_normalized:
  assumes "runtime_laws R" and "key = ''Pre_VAT_Amount'' \<or> key = ''WHT''"
  shows "parse_amount R
           (dict_set ''WHT'' (JFloat (field_result R d ''WHT''))
             (dict_set ''Pre_VAT_Amount'' (JFloat (field_result R d ''Pre_VAT_Amount'')) d)) key
         = Some (field_result R d key)"
  using assms(2) settled_float [OF assms(1), of d]
  by (auto simp: parse_amount_def dict_get_def map_of_dict_set)

lemma normalized_twice:
  assumes "runtime_laws R"
  shows "normalized_invoice R (normalized_invoice R v) = normalized_invoice R v"
proof (cases v)
  case (JObj d)
  define d2 where "d2 = dict_set ''WHT'' (JFloat (field_result R d ''WHT''))
             (dict_set ''Pre_VAT_Amount'' (JFloat (field_result R d ''Pre_VAT_Amount'')) d)"
  have p: "field_result R d2 ''Pre_VAT_Amount'' = field_result R d ''Pre_VAT_Amount''"
    using field_result_normalized [OF assms, of "''Pre_VAT_Amount''" d] settled_float [OF assms, of d]
    by (simp add: field_result_def d2_def)
  have w: "field_result R d2 ''WHT'' = field_result R d ''WHT''"
    using field_result_normalized [OF assms, of "''WHT''" d] settled_float [OF assms, of d]
    by (simp add: field_result_def d2_def)
  have mp: "map_of d2 ''Pre_VAT_Amount'' = Some (JFloat (field_result R d ''Pre_VAT_Amount''))"
    by (simp add: d2_def map_of_dict_set)
  have mw: "map_of d2 ''WHT'' = Some (JFloat (field_result R d ''WHT''))"
    by (simp add: d2_def map_of_dict_set)
  have "normalized_invoice R (JObj d2) = JObj d2"
    by (simp add: normalized_invoice_def p w dict_set_same [OF mp] dict_set_same [OF mw])
  then show ?thesis
    unfolding JObj by (simp add: normalized_invoice_def d2_def)
qed (simp_all add: normalized_invoice_def)

lemma is_dict_normalized: "is_dict (normalized_invoice R v) = is_dict v"
  by (cases v) (simp_all add: normalized_invoice_def is_dict_def)

lemma held_values_Cons:
  "held_values key (v # invs) =
     (case field_of v key of Some (JFloat x) \<Rightarrow> x # held_values key invs
      | _ \<Rightarrow> held_values key invs)"
  by (simp add: held_values_def split: option.splits json.splits)

lemma parsed_values_normalized:
  assumes "runtime_laws R" and "key = ''Pre_VAT_Amount'' \<or> key = ''WHT''"
  shows "list_all is_dict invs \<Longrightarrow>
         parsed_values R key (map (normalized_invoice R) invs) =
           held_values key (map (normalized_invoice R) invs)"
proof (induction invs)
  case Nil
  then show ?case by (simp add: parsed_values_def held_values_def)
next
  case (Cons v invs)
  then obtain d where v: "v = JObj d"
    by (cases v) (simp_all add: is_dict_def)
  have f: "field_of (normalized_invoice R (JObj d)) key = Some (JFloat (field_result R d key))"
    using assms(2) by (auto simp: field_of_normalized)
  have n: "normalized_invoice R (JObj d) =
      JObj (dict_set ''WHT'' (JFloat (field_result R d ''WHT''))
             (dict_set ''Pre_VAT_Amount'' (JFloat (field_result R d ''Pre_VAT_Amount'')) d))"
    by (simp add: normalized_invoice_def)
  have "parsed_values R key (normalized_invoice R (JObj d) # map (normalized_invoice R) invs) =
        field_result R d key # parsed_values R key (map (normalized_invoice R) invs)"
    unfolding n by (simp add: parsed_values_Cons field_result_normalized [OF assms])
  moreover have "held_values key (normalized_invoice R (JObj d) # map (normalized_invoice R) invs) =
        field_result R d key # held_values key (map (normalized_invoice R) invs)"
    by (simp add: held_values_Cons f)
  ultimately show ?case
    using Cons by (simp add: v)
qed

lemma contract_out:
  assumes "contract d" and "calculate_summary R (JObj d) = Inr out"
  shows "\<exists>d'. out = JObj d' \<and> contract d'"
proof -
  from calculate_summary_Inr [OF assms(2)] obtain s s' where
    s: "map_of d ''Summary'' = Some (JObj s)" and
    out: "out = JObj (dict_set ''Summary'' (JObj s') (after_loop R d))"
    by auto
  define d' where "d' = dict_set ''Summary'' (JObj s') (after_loop R d)"
  have sum: "summary_ok d'"
    by (simp add: d'_def summary_ok_def map_of_dict_set)
  have inv: "map_of d' ''Invoices'' = map_of (after_loop R d) ''Invoices''"
    by (simp add: d'_def map_of_dict_set)
  have "invoices_ok d'"
    using assms(1)
    by (auto simp: invoices_ok_def inv after_loop_def contract_def map_of_dict_set
        list_all_iff is_dict_normalized split: option.splits json.splits)
  with sum out show ?thesis
    by (simp add: contract_def d'_def)
qed

lemma after_loop_settled:
  assumes "\<forall>v \<in> set (invoices_of (JObj d)). normalized_invoice R v = v"
  shows "after_loop R d = d"
proof (cases "map_of d ''Invoices''")
  case None
  then show ?thesis by (simp add: after_loop_def)
next
  case (Some a)
  show ?thesis
  proof (cases a)
    case (JArr invs)
    with Some assms have "map (normalized_invoice R) invs = invs"
      by (simp add: invoices_of_JObj map_idI)
    with Some JArr show ?thesis
      by (simp add: after_loop_def dict_set_same)
  qed (simp_all add: after_loop_def Some)
qed

lemma calculate_summary_fixed:
  assumes s: "map_of d ''Summary'' = Some (JObj s)"
    and ok: "invoices_ok d"
    and settled: "\<forall>v \<in> set (invoices_of (JObj d)). normalized_invoice R v = v"
    and tp: "map_of s ''Total_Pre_VAT_Amount'' =
        Some (JFloat (round2 R (running_sum R (parsed_values R ''Pre_VAT_Amount'' (invoices_of (JObj d))))))"
    and tw: "map_of s ''Total_WHT'' =
        Some (JFloat (round2 R (running_sum R (parsed_values R ''WHT'' (invoices_of (JObj d))))))"
  shows "calculate_summary R (JObj d) = Inr (JObj d)"
proof -
  have s1: "dict_set ''Total_Pre_VAT_Amount''
      (JFloat (round2 R (running_sum R (parsed_values R ''Pre_VAT_Amount'' (invoices_of (JObj d)))))) s = s"
    by (rule dict_set_same [OF tp])
  have s2: "dict_set ''Total_WHT''
      (JFloat (round2 R (running_sum R (parsed_values R ''WHT'' (invoices_of (JObj d)))))) s = s"
    by (rule dict_set_same [OF tw])
  have s3: "dict_set ''Summary'' (JObj s) d = d"
    by (rule dict_set_same [OF s])
  show ?thesis
    by (simp add: calculate_summary_contract [OF ok] after_loop_settled [OF settled]
        write_summary_dict [OF s] s1 s2 s3)
qed

text \<open>
  C2, as the specification states it, fails: the first call adds the values before
  they are rounded, the second call finds them rounded. For two invoices of 0.004 the
  first call leaves the total 0.01, the second call the total 0.0.
\<close>

theorem second_pass_changes_total:
  "contract small_amounts \<and>
   calculate_summary decimal_rt (JObj small_amounts) = Inr small_amounts_once \<and>
   calculate_summary decimal_rt small_amounts_once = Inr small_amounts_twice \<and>
   small_amounts_twice \<noteq> small_amounts_once \<and>
   summary_slot small_amounts_once ''Total_Pre_VAT_Amount'' = Some (JFloat (Finite (1 / 100))) \<and>
   summary_slot small_amounts_twice ''Total_Pre_VAT_Amount'' = Some (JFloat (Finite 0))"
proof -
  have "contract small_amounts"
    by (simp add: small_amounts_def contract_def invoices_ok_def summary_ok_def is_dict_def)
  moreover have "calculate_summary decimal_rt (JObj small_amounts) = Inr small_amounts_once"
    by code_simp
  moreover have "calculate_summary decimal_rt small_amounts_once = Inr small_amounts_twice"
    by code_simp
  moreover have "small_amounts_twice \<noteq> small_amounts_once"
    by (simp add: small_amounts_twice_def small_amounts_once_def)
  moreover have "summary_slot small_amounts_once ''Total_Pre_VAT_Amount'' = Some (JFloat (Finite (1 / 100)))"
    by (simp add: small_amounts_once_def summary_slot_def field_of_def)
  moreover have "summary_slot small_amounts_twice ''Total_Pre_VAT_Amount'' = Some (JFloat (Finite 0))"
    by (simp add: small_amounts_twice_def summary_slot_def field_of_def)
  ultimately show ?thesis by simp
qed

text \<open>
  C2, amended: for an input under the contract and a runtime with the three laws, a
  second call returns normally and leaves the invoices, every other key and every slot
  of the summary other than the two totals as the first call left them; the two totals
  become the rounded sums of the values that the invoices hold; and a third call
  changes nothing at all.
\<close>

theorem idempotent_after_first_pass:
  assumes "contract d" and "runtime_laws R"
  shows "\<exists>once twice.
           calculate_summary R (JObj d) = Inr once \<and>
           calculate_summary R once = Inr twice \<and>
           invoices_of twice = invoices_of once \<and>
           (\<forall>k. k \<noteq> ''Summary'' \<longrightarrow> field_of twice k = field_of once k) \<and>
           (\<forall>k. k \<noteq> ''Total_Pre_VAT_Amount'' \<and> k \<noteq> ''Total_WHT'' \<longrightarrow>
                summary_slot twice k = summary_slot once k) \<and>
           totals_of_held_values R twice \<and>
           calculate_summary R twice = Inr twice"
proof -
  from assms(1) obtain once where once: "calculate_summary R (JObj d) = Inr once"
    using contract_returns by blast
  from contract_out [OF assms(1) once] obtain d1 where d1: "once = JObj d1" "contract d1"
    by blast
  from d1(2) obtain twice where twice: "calculate_summary R (JObj d1) = Inr twice"
    using contract_returns by blast
  from contract_out [OF d1(2) twice] obtain d2 where d2: "twice = JObj d2" "contract d2"
    by blast
  have dicts: "list_all is_dict (invoices_of (JObj d))"
    by (rule out_invoices_dicts [OF once])
  have inv1: "invoices_of (JObj d1) = map (normalized_invoice R) (invoices_of (JObj d))"
    using out_invoices [OF once] d1(1) by simp
  have settled1: "\<forall>v \<in> set (invoices_of (JObj d1)). normalized_invoice R v = v"
    by (auto simp: inv1 normalized_twice [OF assms(2)])
  then have "map (normalized_invoice R) (invoices_of (JObj d1)) = invoices_of (JObj d1)"
    by (simp add: map_idI)
  then have inv2: "invoices_of (JObj d2) = invoices_of (JObj d1)"
    using out_invoices [OF twice] d2(1) by simp
  have parsed: "parsed_values R key (invoices_of (JObj d1)) = held_values key (invoices_of (JObj d1))"
    if "key = ''Pre_VAT_Amount'' \<or> key = ''WHT''" for key
    unfolding inv1 by (rule parsed_values_normalized [OF assms(2) that dicts])
  have tp: "summary_slot (JObj d2) ''Total_Pre_VAT_Amount'' =
      Some (JFloat (round2 R (running_sum R (held_values ''Pre_VAT_Amount'' (invoices_of (JObj d2))))))"
    using out_total_pre_vat [OF twice] d2(1) by (simp add: parsed inv2)
  have tw: "summary_slot (JObj d2) ''Total_WHT'' =
      Some (JFloat (round2 R (running_sum R (held_values ''WHT'' (invoices_of (JObj d2))))))"
    using out_total_wht [OF twice] d2(1) by (simp add: parsed inv2)
  have held: "totals_of_held_values R (JObj d2)"
    using tp tw by (simp add: totals_of_held_values_def)
  from calculate_summary_Inr [OF twice] obtain s' where
    out2: "d2 = dict_set ''Summary'' (JObj s') (after_loop R d1)"
    using d2(1) by auto
  have other: "field_of (JObj d2) k = field_of (JObj d1) k" if "k \<noteq> ''Summary''" for k
    using that by (simp add: out2 after_loop_settled [OF settled1] field_of_def map_of_dict_set)
  from d2(2) obtain s2 where s2: "map_of d2 ''Summary'' = Some (JObj s2)"
    by (auto simp: contract_def summary_ok_def split: option.splits json.splits)
  have settled2: "\<forall>v \<in> set (invoices_of (JObj d2)). normalized_invoice R v = v"
    using settled1 by (simp add: inv2)
  have tp2: "map_of s2 ''Total_Pre_VAT_Amount'' =
        Some (JFloat (round2 R (running_sum R (parsed_values R ''Pre_VAT_Amount'' (invoices_of (JObj d2))))))"
    using tp s2 by (simp add: summary_slot_def field_of_def inv2 parsed)
  have tw2: "map_of s2 ''Total_WHT'' =
        Some (JFloat (round2 R (running_sum R (parsed_values R ''WHT'' (invoices_of (JObj d2))))))"
    using tw s2 by (simp add: summary_slot_def field_of_def inv2 parsed)
  have fixed: "calculate_summary R (JObj d2) = Inr (JObj d2)"
    using d2(2) by (intro calculate_summary_fixed [OF s2 _ settled2 tp2 tw2]) (simp add: contract_def)
  have slots: "summary_slot (JObj d2) k = summary_slot (JObj d1) k"
    if "k \<noteq> ''Total_Pre_VAT_Amount''" "k \<noteq> ''Total_WHT''" for k
    using out_other_slots [OF twice that] d2(1) by simp
  show ?thesis
  proof (intro exI conjI allI impI)
    show "calculate_summary R (JObj d) = Inr (JObj d1)"
      using once d1(1) by simp
    show "calculate_summary R (JObj d1) = Inr (JObj d2)"
      using twice d2(1) by simp
    show "invoices_of (JObj d2) = invoices_of (JObj d1)"
      by (rule inv2)
    show "field_of (JObj d2) k = field_of (JObj d1) k" if "k \<noteq> ''Summary''" for k
      by (rule other [OF that])
    show "summary_slot (JObj d2) k = summary_slot (JObj d1) k"
      if "k \<noteq> ''Total_Pre_VAT_Amount'' \<and> k \<noteq> ''Total_WHT''" for k
      using that by (intro slots) simp_all
    show "totals_of_held_values R (JObj d2)"
      by (rule held)
    show "calculate_summary R (JObj d2) = Inr (JObj d2)"
      by (rule fixed)
  qed
qed

theorem idempotent_after_first_pass_witness:
  "contract small_amounts \<and> runtime_laws decimal_rt \<and>
   calculate_summary decimal_rt (JObj small_amounts) = Inr small_amounts_once \<and>
   calculate_summary decimal_rt small_amounts_once = Inr small_amounts_twice \<and>
   invoices_of small_amounts_twice = invoices_of small_amounts_once \<and>
   totals_of_held_values decimal_rt small_amounts_twice \<and>
   calculate_summary decimal_rt small_amounts_twice = Inr small_amounts_twice"
proof -
  have c: "contract small_amounts"
    by (simp add: small_amounts_def contract_def invoices_ok_def summary_ok_def is_dict_def)
  have one: "calculate_summary decimal_rt (JObj small_amounts) = Inr small_amounts_once"
    by code_simp
  have two: "calculate_summary decimal_rt small_amounts_once = Inr small_amounts_twice"
    by code_simp
  from idempotent_after_first_pass [OF c decimal_rt_laws] obtain once where
    "\<exists>twice.
       calculate_summary decimal_rt (JObj small_amounts) = Inr once \<and>
       calculate_summary decimal_rt once = Inr twice \<and>
       invoices_of twice = invoices_of once \<and>
       (\<forall>k. k \<noteq> ''Summary'' \<longrightarrow> field_of twice k = field_of once k) \<and>
       (\<forall>k. k \<noteq> ''Total_Pre_VAT_Amount'' \<and> k \<noteq> ''Total_WHT'' \<longrightarrow>
            summary_slot twice k = summary_slot once k) \<and>
       totals_of_held_values decimal_rt twice \<and>
       calculate_summary decimal_rt twice = Inr twice" ..
  then obtain twice where h:
      "calculate_summary decimal_rt (JObj small_amounts) = Inr once \<and>
       calculate_summary decimal_rt once = Inr twice \<and>
       invoices_of twice = invoices_of once \<and>
       (\<forall>k. k \<noteq> ''Summary'' \<longrightarrow> field_of twice k = field_of once k) \<and>
       (\<forall>k. k \<noteq> ''Total_Pre_VAT_Amount'' \<and> k \<noteq> ''Total_WHT'' \<longrightarrow>
            summary_slot twice k = summary_slot once k) \<and>
       totals_of_held_values decimal_rt twice \<and>
       calculate_summary decimal_rt twice = Inr twice" ..
  note h1 = h [THEN conjunct1]
  note h2 = h [THEN conjunct2, THEN conjunct1]
  note h3 = h [THEN conjunct2, THEN conjunct2, THEN conjunct1]
  note h6 = h [THEN conjunct2, THEN conjunct2, THEN conjunct2, THEN conjunct2, THEN conjunct2,
      THEN conjunct1]
  note h7 = h [THEN conjunct2, THEN conjunct2, THEN conjunct2, THEN conjunct2, THEN conjunct2,
      THEN conjunct2]
  from h1 one have o: "once = small_amounts_once" by simp
  from h2 two have t: "twice = small_amounts_twice" by (simp add: o)
  from h3 have "invoices_of small_amounts_twice = invoices_of small_amounts_once"
    by (simp only: o t)
  moreover from h6 have "totals_of_held_values decimal_rt small_amounts_twice"
    by (simp only: t)
  moreover from h7 have "calculate_summary decimal_rt small_amounts_twice = Inr small_amounts_twice"
    by (simp only: t)
  ultimately show ?thesis
    using c decimal_rt_laws one two by simp
qed

end
